(* ===== verification/Yurei_Prelude.thy ===== *)
theory Yurei_Prelude
  imports Main "HOL-Library.Word"
begin

text \<open>
  What every component of the model shares: the names of the C integer types, the
  collections the components declare their facts into, and generic lemmas on lists,
  options and machine words.

  A \<open>uint8_t\<close>, \<open>uint32_t\<close> or \<open>uint64_t\<close> of the code is a word of that width, so
  that its arithmetic wraps as the code's does. A \<open>size_t\<close> that only counts the bytes or
  slots of an allocated object is a \<open>nat\<close>: it is bounded by the object's size. A call that
  can block in \<open>pthread_cond_wait\<close> returns an option, with \<open>None\<close> for "the calling
  thread waits". A pointer that the code compares with \<open>NULL\<close> is an option.
\<close>

type_synonym u8 = "8 word"
type_synonym u32 = "32 word"
type_synonym u64 = "64 word"
type_synonym size_t = nat

named_theorems cstr_simps "facts about the C string functions"
named_theorems queue_simps "facts about the operations of the event queue"
named_theorems inv_intros "preservation of invariants"

section \<open>Lists\<close>

lemma takeWhile_all: "(\<And>x. x \<in> set xs \<Longrightarrow> P x) \<Longrightarrow> takeWhile P xs = xs"
  by (simp add: takeWhile_eq_all_conv)

lemma dropWhile_none: "xs = [] \<or> \<not> P (hd xs) \<Longrightarrow> dropWhile P xs = xs"
  by (cases xs) auto

lemma length_dropWhile_less: "xs \<noteq> [] \<Longrightarrow> P (hd xs) \<Longrightarrow> length (dropWhile P xs) < length xs"
  by (cases xs) (auto simp: length_dropWhile_le less_Suc_eq_le)

lemma nth_rotate_index: "k < n \<Longrightarrow> (h + k) mod n < (n::nat)"
  by simp

section \<open>Machine words\<close>

lemma unat_add_no_wrap:
  "unat a + unat b < 2 ^ LENGTH('l) \<Longrightarrow> unat (a + b :: 'l::len word) = unat a + unat b"
  by (simp add: unat_word_ariths)

lemma unat_double_no_wrap:
  "2 * unat a < 2 ^ LENGTH('l) \<Longrightarrow> unat (a * 2 :: 'l::len word) = 2 * unat a"
  by (metis mult.commute mult_2 unat_add_no_wrap)

lemma word_less_nat: "(a < b) = (unat (a :: 'l::len word) < unat b)"
  by (rule word_less_nat_alt)

lemma word_le_nat: "(a \<le> b) = (unat (a :: 'l::len word) \<le> unat b)"
  by (rule word_le_nat_alt)

lemma of_nat_unat_mono: "a \<le> b \<Longrightarrow> (of_nat (unat (a :: 'l::len word)) :: 'a::linordered_semidom) \<le> of_nat (unat b)"
  by (simp only: of_nat_le_iff word_le_nat)

lemma of_nat_unat_pos: "0 < a \<Longrightarrow> (1 :: 'a::linordered_semidom) \<le> of_nat (unat (a :: 'l::len word))"
  by (metis One_nat_def Suc_leI of_nat_1 of_nat_le_iff unat_0 word_less_nat)

end
