(* ===== verification/C_Strings.thy ===== *)
theory C_Strings
  imports Yurei_Prelude
begin

text \<open>
  The part of the C string library the program uses. A C string is the list of its bytes
  up to, and without, the terminating NUL; \<open>cstr\<close> reads a byte buffer as a C string. A
  \<open>char\<close> array of the code that holds a C string is modelled by that string; its size
  bounds what \<open>snprintf\<close> stores in it. The program never calls \<open>setlocale\<close>, so
  \<open>isspace\<close> and \<open>tolower\<close> are those of the "C" locale.
\<close>

section \<open>Buffers and characters\<close>

abbreviation NUL :: char where
  "NUL \<equiv> CHR 0x00"

definition cstr :: "string \<Rightarrow> string" where
  "cstr buf = takeWhile (\<lambda>c. c \<noteq> NUL) buf"

definition is_cstr :: "string \<Rightarrow> bool" where
  "is_cstr s = list_all (\<lambda>c. c \<noteq> NUL) s"

definition isspace :: "char \<Rightarrow> bool" where
  "isspace c = (let n = (of_char c :: nat) in n = 32 \<or> (9 \<le> n \<and> n \<le> 13))"

definition isdigit :: "char \<Rightarrow> bool" where
  "isdigit c = (let n = (of_char c :: nat) in 48 \<le> n \<and> n \<le> 57)"

definition tolower :: "char \<Rightarrow> char" where
  "tolower c = (let n = (of_char c :: nat) in if 65 \<le> n \<and> n \<le> 90 then char_of (n + 32) else c)"

lemma cstr_is_cstr [simp]: "is_cstr (cstr s)"
  by (auto simp: is_cstr_def cstr_def list_all_iff dest: set_takeWhileD)

lemma cstr_id [simp]: "is_cstr s \<Longrightarrow> cstr s = s"
  by (auto simp: is_cstr_def cstr_def list_all_iff)

lemma cstr_length: "length (cstr s) \<le> length s"
  by (simp add: cstr_def length_takeWhile_le)

lemma is_cstr_simps [simp]:
  "is_cstr []"
  "is_cstr (c # s) = (c \<noteq> NUL \<and> is_cstr s)"
  "is_cstr (s @ t) = (is_cstr s \<and> is_cstr t)"
  by (auto simp: is_cstr_def)

lemma is_cstr_take [simp]: "is_cstr s \<Longrightarrow> is_cstr (take n s)"
  by (auto simp: is_cstr_def list_all_iff dest: in_set_takeD)

lemma is_cstr_drop [simp]: "is_cstr s \<Longrightarrow> is_cstr (drop n s)"
  by (auto simp: is_cstr_def list_all_iff dest: in_set_dropD)

lemma of_char_less_256 [simp]: "(of_char c :: nat) < 256"
  by (metis nat_of_char_less_256)

section \<open>Comparison and search\<close>

text \<open>\<open>strcasecmp(s, t) == 0\<close>.\<close>

definition strcaseeq :: "string \<Rightarrow> string \<Rightarrow> bool" where
  "strcaseeq s t = (map tolower s = map tolower t)"

text \<open>\<open>strstr\<close> and \<open>strchr\<close> return the suffix that starts at the match, \<open>None\<close> for NULL.\<close>

fun is_prefix :: "string \<Rightarrow> string \<Rightarrow> bool" where
  "is_prefix [] s = True"
| "is_prefix (c # p) [] = False"
| "is_prefix (c # p) (d # s) = (c = d \<and> is_prefix p s)"

fun strstr :: "string \<Rightarrow> string \<Rightarrow> string option" where
  "strstr [] p = (if p = [] then Some [] else None)"
| "strstr (c # s) p = (if is_prefix p (c # s) then Some (c # s) else strstr s p)"

fun strchr :: "string \<Rightarrow> char \<Rightarrow> string option" where
  "strchr [] c = None"
| "strchr (d # s) c = (if d = c then Some (d # s) else strchr s c)"

text \<open>What \<open>snprintf(dst, n, "%s", s)\<close> stores in a buffer of \<open>n > 0\<close> bytes.\<close>

definition snprintf_str :: "nat \<Rightarrow> string \<Rightarrow> string" where
  "snprintf_str n s = take (n - 1) s"

text \<open>
  \<open>offset += snprintf(out + offset, len - offset, ...)\<close>, where \<open>s\<close> is the formatted text: the
  string in \<open>out\<close> and the new offset, which counts the whole text also when it was cut.
  \<open>None\<close> when \<open>offset\<close> is past the buffer: the unsigned \<open>len - offset\<close> would wrap and the
  call write outside it.
\<close>

definition snprintf_at :: "nat \<Rightarrow> string \<Rightarrow> string \<times> nat \<Rightarrow> (string \<times> nat) option" where
  "snprintf_at len s = (\<lambda>(out, offset).
     if offset < len then Some (take offset out @ snprintf_str (len - offset) s, offset + length s) else None)"

lemma strcaseeq_refl [simp]: "strcaseeq s s"
  by (simp add: strcaseeq_def)

lemma strcaseeq_sym: "strcaseeq s t = strcaseeq t s"
  by (auto simp: strcaseeq_def)

lemma strcaseeq_trans: "strcaseeq s t \<Longrightarrow> strcaseeq t u \<Longrightarrow> strcaseeq s u"
  by (simp add: strcaseeq_def)

lemma strcaseeq_length: "strcaseeq s t \<Longrightarrow> length s = length t"
  by (metis length_map strcaseeq_def)

lemma strcaseeq_Nil [simp]: "strcaseeq [] t = (t = [])" "strcaseeq s [] = (s = [])"
  by (auto simp: strcaseeq_def)

lemma is_prefix_iff: "is_prefix p s = (\<exists>t. s = p @ t)"
  by (induction p s rule: is_prefix.induct) auto

lemma is_prefix_append [simp]: "is_prefix p (p @ t)"
  by (auto simp: is_prefix_iff)

lemma strstr_Some: "strstr s p = Some t \<Longrightarrow> is_prefix p t \<and> (\<exists>u. s = u @ t)"
proof (induction s)
  case Nil
  then show ?case by (auto split: if_splits)
next
  case (Cons c s)
  show ?case
  proof (cases "is_prefix p (c # s)")
    case True
    with Cons.prems show ?thesis by auto
  next
    case False
    with Cons.prems have "strstr s p = Some t" by simp
    then show ?thesis using Cons.IH by (metis append_Cons)
  qed
qed

lemma strstr_None: "strstr s p = None \<Longrightarrow> \<not> (\<exists>u v. s = u @ p @ v)"
proof (induction s)
  case Nil
  then show ?case by (auto split: if_splits)
next
  case (Cons c s)
  then show ?case
    by (auto split: if_splits simp: Cons_eq_append_conv is_prefix_iff)
qed

lemma strstr_here [cstr_simps]: "p \<noteq> [] \<Longrightarrow> strstr (p @ s) p = Some (p @ s)"
  by (cases p) (simp_all add: is_prefix_iff)

lemma strchr_split: "c \<notin> set s \<Longrightarrow> strchr (s @ c # t) c = Some (c # t)"
  by (induction s) auto

lemma strchr_Some: "strchr s c = Some t \<Longrightarrow> \<exists>u v. s = u @ c # v \<and> t = c # v \<and> c \<notin> set u"
proof (induction s)
  case Nil
  then show ?case by simp
next
  case (Cons d s)
  show ?case
  proof (cases "d = c")
    case True
    with Cons.prems show ?thesis by (intro exI [of _ "[]"] exI [of _ s]) auto
  next
    case False
    with Cons.prems have "strchr s c = Some t" by simp
    then obtain u v where "s = u @ c # v" "t = c # v" "c \<notin> set u"
      using Cons.IH by blast
    with False show ?thesis by (intro exI [of _ "d # u"] exI [of _ v]) auto
  qed
qed

lemma strchr_None: "strchr s c = None \<longleftrightarrow> c \<notin> set s"
  by (induction s) auto

lemma strchr_length: "strchr s c = Some t \<Longrightarrow> length t \<le> length s"
  by (auto dest!: strchr_Some)

lemma snprintf_str_length: "0 < n \<Longrightarrow> length (snprintf_str n s) < n"
  by (simp add: snprintf_str_def)

lemma snprintf_str_id [simp]: "length s < n \<Longrightarrow> snprintf_str n s = s"
  by (simp add: snprintf_str_def)

lemma snprintf_at_fits [cstr_simps]:
  "length out + length s < len \<Longrightarrow> snprintf_at len s (out, length out) = Some (out @ s, length (out @ s))"
  by (simp add: snprintf_at_def)

lemma snprintf_str_cstr [simp]: "is_cstr s \<Longrightarrow> is_cstr (snprintf_str n s)"
  by (simp add: snprintf_str_def)

section \<open>Numbers in decimal\<close>

definition digit_val :: "char \<Rightarrow> nat" where
  "digit_val c = of_char c - 48"

fun dec_value :: "nat \<Rightarrow> string \<Rightarrow> nat" where
  "dec_value acc [] = acc"
| "dec_value acc (c # s) = dec_value (10 * acc + digit_val c) s"

definition ULONG_MAX :: nat where
  "ULONG_MAX = 2 ^ 64 - 1"

text \<open>
  \<open>strtoul(s, &end, 10)\<close> on a 64-bit \<open>unsigned long\<close>: leading white space, an optional
  sign, digits. The result saturates at \<open>ULONG_MAX\<close>; a minus sign negates modulo
  \<open>2 ^ 64\<close>. The second component is the string at \<open>end\<close>, the whole input when there is
  no digit.
\<close>

definition strtoul :: "string \<Rightarrow> u64 \<times> string" where
  "strtoul s =
     (let s1 = dropWhile isspace s;
          neg = (s1 \<noteq> [] \<and> hd s1 = CHR ''-'');
          s2 = (if s1 \<noteq> [] \<and> (hd s1 = CHR ''-'' \<or> hd s1 = CHR ''+'') then tl s1 else s1);
          ds = takeWhile isdigit s2;
          v = dec_value 0 ds
      in if ds = [] then (0, s)
         else if v > ULONG_MAX then (of_nat ULONG_MAX, dropWhile isdigit s2)
         else if neg then (- of_nat v, dropWhile isdigit s2)
         else (of_nat v, dropWhile isdigit s2))"

text \<open>
  \<open>atoi\<close>, which the GNU C library computes as \<open>(int) strtol(s, NULL, 10)\<close>: the \<open>long\<close>
  saturates and the conversion to \<open>int\<close> keeps its low 32 bits.
\<close>

definition atoi :: "string \<Rightarrow> int" where
  "atoi s =
     (let s1 = dropWhile isspace s;
          neg = (s1 \<noteq> [] \<and> hd s1 = CHR ''-'');
          s2 = (if s1 \<noteq> [] \<and> (hd s1 = CHR ''-'' \<or> hd s1 = CHR ''+'') then tl s1 else s1);
          v = int (dec_value 0 (takeWhile isdigit s2));
          l = (if neg then max (- (2 ^ 63)) (- v) else min (2 ^ 63 - 1) v)
      in sint (word_of_int l :: 32 word))"

text \<open>The decimal digits \<open>%u\<close>, \<open>%zu\<close> and \<open>PRIu64\<close> print.\<close>

fun show_nat :: "nat \<Rightarrow> string" where
  "show_nat n = (if n < 10 then [char_of (48 + n)] else show_nat (n div 10) @ [char_of (48 + n mod 10)])"

declare show_nat.simps [simp del]

lemma digit_char [simp]: "n < 10 \<Longrightarrow> isdigit (char_of (48 + n))" "n < 10 \<Longrightarrow> digit_val (char_of (48 + n)) = n"
  by (simp_all add: isdigit_def digit_val_def Let_def of_char_of)

lemma show_nat_digits: "list_all isdigit (show_nat n)"
proof (induction n rule: show_nat.induct)
  case (1 n)
  then show ?case by (subst show_nat.simps) auto
qed

lemma show_nat_nonempty [simp]: "show_nat n \<noteq> []"
  by (subst show_nat.simps) simp

lemma dec_value_append: "dec_value a (s @ t) = dec_value (dec_value a s) t"
  by (induction s arbitrary: a) auto

lemma dec_value_show_nat [simp]: "dec_value 0 (show_nat n) = n"
proof (induction n rule: show_nat.induct)
  case (1 n)
  then show ?case by (subst show_nat.simps) (auto simp: dec_value_append)
qed

lemma show_nat_length: "n < 10 ^ k \<Longrightarrow> 0 < k \<Longrightarrow> length (show_nat n) \<le> k"
proof (induction k arbitrary: n)
  case 0
  then show ?case by simp
next
  case (Suc k)
  show ?case
  proof (cases "n < 10")
    case True
    then show ?thesis by (subst show_nat.simps) simp
  next
    case False
    with Suc.prems have "0 < k" by (cases k) auto
    moreover from Suc.prems have "n div 10 < 10 ^ k" by (simp add: less_mult_imp_div_less mult.commute)
    ultimately have "length (show_nat (n div 10)) \<le> k" using Suc.IH by blast
    with False show ?thesis by (subst show_nat.simps) simp
  qed
qed

lemma isdigit_not_sign: "isdigit c \<Longrightarrow> c \<noteq> CHR ''-'' \<and> c \<noteq> CHR ''+'' \<and> \<not> isspace c \<and> c \<noteq> NUL"
  by (auto simp: isdigit_def isspace_def Let_def)

lemma show_nat_cstr [simp]: "is_cstr (show_nat n)"
  using show_nat_digits [of n] isdigit_not_sign by (auto simp: is_cstr_def list_all_iff)

lemma strtoul_digits:
  assumes "list_all isdigit ds" and "ds \<noteq> []" and "dec_value 0 ds \<le> ULONG_MAX"
    and "r = [] \<or> \<not> isdigit (hd r)"
  shows "strtoul (ds @ r) = (of_nat (dec_value 0 ds), r)"
proof -
  obtain d ds' where ds: "ds = d # ds'" using assms(2) by (cases ds) auto
  have d: "d \<noteq> CHR ''-'' \<and> d \<noteq> CHR ''+'' \<and> \<not> isspace d"
    using assms(1) ds isdigit_not_sign [of d] by auto
  have "takeWhile isdigit (ds @ r) = ds" "dropWhile isdigit (ds @ r) = r"
    using assms(1,4) by (cases r; auto simp: list_all_iff takeWhile_append dropWhile_append)+
  with d assms(3) show ?thesis by (simp add: strtoul_def ds)
qed

text \<open>Printing a \<open>uint64_t\<close> and reading it back is the identity.\<close>

lemma strtoul_show_nat: "strtoul (show_nat (unat (w :: u64))) = (w, [])"
proof -
  have "unat w \<le> ULONG_MAX"
    using unsigned_less [of w, where ?'a = nat] by (simp add: ULONG_MAX_def)
  then have "strtoul (show_nat (unat w) @ []) = (of_nat (unat w), [])"
    by (subst strtoul_digits) (auto simp: show_nat_digits)
  then show ?thesis by simp
qed

text \<open>A 64-bit number has at most 20 decimal digits.\<close>

lemma show_u64_length: "length (show_nat (unat (w :: u64))) \<le> 20"
proof -
  have "unat w < 10 ^ 20" using unsigned_less [of w, where ?'a = nat] by simp
  then show ?thesis by (rule show_nat_length) simp
qed

end
