(* ===== verification/Logging.thy ===== *)
theory Logging
  imports C_Strings
begin

text \<open>
  \<open>src/logging.c\<close> and \<open>include/logging.h\<close>: the log levels, the two module variables and
  the line that \<open>yurei_log\<close> prints. The text of the time stamp, which \<open>localtime_r\<close> and
  \<open>strftime\<close> compute from the clock, and the nanoseconds are arguments; so is the message
  that \<open>vfprintf\<close> formats. The mutex makes each call print its line in one piece.
\<close>

section \<open>Levels\<close>

datatype YureiLogLevel =
    YUREI_LOG_TRACE
  | YUREI_LOG_DEBUG
  | YUREI_LOG_INFO
  | YUREI_LOG_WARN
  | YUREI_LOG_ERROR

text \<open>The values the enumeration gives the levels; the code compares levels by them.\<close>

fun level_value :: "YureiLogLevel \<Rightarrow> nat" where
  "level_value YUREI_LOG_TRACE = 0"
| "level_value YUREI_LOG_DEBUG = 1"
| "level_value YUREI_LOG_INFO = 2"
| "level_value YUREI_LOG_WARN = 3"
| "level_value YUREI_LOG_ERROR = 4"

lemma level_value_inj: "level_value a = level_value b \<Longrightarrow> a = b"
  by (cases a; cases b) simp_all

instantiation YureiLogLevel :: linorder
begin

definition less_eq_YureiLogLevel :: "YureiLogLevel \<Rightarrow> YureiLogLevel \<Rightarrow> bool" where
  "less_eq_YureiLogLevel a b = (level_value a \<le> level_value b)"

definition less_YureiLogLevel :: "YureiLogLevel \<Rightarrow> YureiLogLevel \<Rightarrow> bool" where
  "less_YureiLogLevel a b = (level_value a < level_value b)"

instance
  by standard (auto simp: less_eq_YureiLogLevel_def less_YureiLogLevel_def dest: level_value_inj)

end

section \<open>The module state\<close>

record LogState =
  g_level :: YureiLogLevel
  g_color_enabled :: bool

definition log_state_init :: LogState where
  "log_state_init = \<lparr>g_level = YUREI_LOG_INFO, g_color_enabled = True\<rparr>"

definition yurei_log_set_level :: "YureiLogLevel \<Rightarrow> LogState \<Rightarrow> LogState" where
  "yurei_log_set_level level st = st\<lparr>g_level := level\<rparr>"

definition yurei_log_set_color :: "bool \<Rightarrow> LogState \<Rightarrow> LogState" where
  "yurei_log_set_color enabled st = st\<lparr>g_color_enabled := enabled\<rparr>"

section \<open>The printed line\<close>

abbreviation ESC :: char where
  "ESC \<equiv> CHR 0x1B"

definition ANSI_RESET :: string where "ANSI_RESET = ESC # ''[0m''"
definition ANSI_GRAY :: string where "ANSI_GRAY = ESC # ''[90m''"
definition ANSI_CYAN :: string where "ANSI_CYAN = ESC # ''[36m''"
definition ANSI_GREEN :: string where "ANSI_GREEN = ESC # ''[32m''"
definition ANSI_YELLOW :: string where "ANSI_YELLOW = ESC # ''[33m''"
definition ANSI_RED :: string where "ANSI_RED = ESC # ''[31m''"
definition ANSI_BOLD :: string where "ANSI_BOLD = ESC # ''[1m''"

lemmas ansi_defs = ANSI_RESET_def ANSI_GRAY_def ANSI_CYAN_def ANSI_GREEN_def ANSI_YELLOW_def
  ANSI_RED_def ANSI_BOLD_def

fun level_to_string :: "YureiLogLevel \<Rightarrow> string" where
  "level_to_string YUREI_LOG_TRACE = ''TRACE''"
| "level_to_string YUREI_LOG_DEBUG = ''DEBUG''"
| "level_to_string YUREI_LOG_INFO = ''INFO ''"
| "level_to_string YUREI_LOG_WARN = ''WARN ''"
| "level_to_string YUREI_LOG_ERROR = ''ERROR''"

definition level_to_color :: "LogState \<Rightarrow> YureiLogLevel \<Rightarrow> string" where
  "level_to_color st level =
     (if \<not> g_color_enabled st then []
      else case level of
        YUREI_LOG_TRACE \<Rightarrow> ANSI_GRAY
      | YUREI_LOG_DEBUG \<Rightarrow> ANSI_CYAN
      | YUREI_LOG_INFO \<Rightarrow> ANSI_GREEN
      | YUREI_LOG_WARN \<Rightarrow> ANSI_YELLOW
      | YUREI_LOG_ERROR \<Rightarrow> ANSI_RED @ ANSI_BOLD)"

text \<open>\<open>%06ld\<close> of a non-negative number.\<close>

definition pad6 :: "nat \<Rightarrow> string" where
  "pad6 n = replicate (6 - length (show_nat n)) (CHR ''0'') @ show_nat n"

text \<open>
  What \<open>yurei_log\<close> writes to \<open>stderr\<close>: nothing below the level, else one line. \<open>stamp\<close> is
  the text \<open>strftime\<close> left in \<open>buffer\<close>, \<open>nsec\<close> is \<open>ts.tv_nsec\<close>.
\<close>

definition yurei_log :: "LogState \<Rightarrow> string \<Rightarrow> nat \<Rightarrow> YureiLogLevel \<Rightarrow> string \<Rightarrow> string" where
  "yurei_log st stamp nsec level msg =
     (if level < g_level st then []
      else level_to_color st level @ stamp @ ''.'' @ pad6 (nsec div 1000) @
           '' ['' @ level_to_string level @ '']'' @
           (if g_color_enabled st then ANSI_RESET else []) @ '' '' @ msg @ ''\<newline>'')"

text \<open>
  A component's calls of \<open>yurei_log\<close> are listed as (level, message) pairs in the order they
  are made; \<open>visible\<close> are those the configured level lets through.
\<close>

type_synonym log_event = "YureiLogLevel \<times> string"

definition visible :: "LogState \<Rightarrow> log_event list \<Rightarrow> log_event list" where
  "visible st evs = filter (\<lambda>(level, _). g_level st \<le> level) evs"

section \<open>Properties\<close>

lemma level_to_string_length: "length (level_to_string l) = 5"
  by (cases l) auto

lemma pad6_length: "n < 10 ^ 6 \<Longrightarrow> length (pad6 n) = 6"
  using show_nat_length [of n 6] by (simp add: pad6_def)

lemma level_to_color_off: "\<not> g_color_enabled st \<Longrightarrow> level_to_color st l = []"
  by (simp add: level_to_color_def)

lemma visible_append: "visible st (a @ b) = visible st a @ visible st b"
  by (simp add: visible_def)

text \<open>
  A reader of log lines, which knows the layout and not how a line is built. \<open>read_sgr\<close> takes
  the terminal sequences \<open>ESC [ ... m\<close> off the front of a text. A line is read as its leading
  codes, the time stamp up to the first dot, six digits of microseconds, the level in
  brackets, the codes that follow, and the message between the next space and the newline.
\<close>

function read_sgr :: "string \<Rightarrow> string list \<times> string" where
  "read_sgr s =
     (if take 2 s = [ESC, CHR ''['']
      then let code = takeWhile (\<lambda>c. c \<noteq> CHR ''m'') (drop 2 s);
               (codes, rest) = read_sgr (drop (length code + 3) s)
           in (code # codes, rest)
      else ([], s))"
  by pat_completeness auto
termination
proof (relation "measure length")
  fix s :: string and code
  assume "take 2 s = [ESC, CHR ''['']"
  then have "s \<noteq> []" by auto
  then show "(drop (length code + 3) s, s) \<in> measure length" by simp
qed simp

declare read_sgr.simps [simp del]

definition level_labels :: "(string \<times> YureiLogLevel) list" where
  "level_labels = [(''TRACE'', YUREI_LOG_TRACE), (''DEBUG'', YUREI_LOG_DEBUG), (''INFO '', YUREI_LOG_INFO),
     (''WARN '', YUREI_LOG_WARN), (''ERROR'', YUREI_LOG_ERROR)]"

definition read_log_line ::
  "string \<Rightarrow> (string list \<times> string \<times> nat \<times> YureiLogLevel \<times> string list \<times> string) option" where
  "read_log_line line =
     (case read_sgr line of (before, s) \<Rightarrow>
      let stamp = takeWhile (\<lambda>c. c \<noteq> CHR ''.'') s;
          s = drop (length stamp + 1) s;
          micros = take 6 s;
          label = take 5 (drop 8 s)
      in case read_sgr (drop 14 s) of (after, s) \<Rightarrow>
         if s = [] \<or> hd s \<noteq> CHR '' '' \<or> last s \<noteq> CHR 0x0A then None
         else case map_of level_labels label of
                None \<Rightarrow> None
              | Some l \<Rightarrow> Some (before, stamp, dec_value 0 micros, l, after, butlast (tl s)))"

lemma read_sgr_none: "s = [] \<or> hd s \<noteq> ESC \<Longrightarrow> read_sgr s = ([], s)"
  by (subst read_sgr.simps) (cases s; auto)

lemma read_sgr_code:
  assumes "CHR ''m'' \<notin> set code"
  shows "read_sgr (ESC # CHR ''['' # code @ CHR ''m'' # s) = (code # fst (read_sgr s), snd (read_sgr s))"
proof -
  have "takeWhile (\<lambda>c. c \<noteq> CHR ''m'') (code @ CHR ''m'' # s) = code"
    using assms by (subst takeWhile_append2) auto
  then show ?thesis
    by (subst read_sgr.simps) (simp add: case_prod_unfold Let_def numeral_2_eq_2 numeral_3_eq_3)
qed

lemma read_sgr_codes:
  "list_all (\<lambda>code. CHR ''m'' \<notin> set code) codes \<Longrightarrow>
   read_sgr (concat (map (\<lambda>code. ESC # CHR ''['' # code @ ''m'') codes) @ s)
     = (codes @ fst (read_sgr s), snd (read_sgr s))"
  by (induction codes) (simp_all add: read_sgr_code)

lemma dec_value_zeros: "dec_value 0 (replicate n (CHR ''0'')) = 0"
  by (induction n) (simp_all add: digit_val_def)

lemma pad6_value: "dec_value 0 (pad6 n) = n"
  by (simp add: pad6_def dec_value_append dec_value_zeros dec_value_show_nat)

lemma level_label: "map_of level_labels (level_to_string l) = Some l"
  by (cases l) (simp_all add: level_labels_def)

definition color_codes :: "YureiLogLevel \<Rightarrow> string list" where
  "color_codes l = (case l of YUREI_LOG_TRACE \<Rightarrow> [''90''] | YUREI_LOG_DEBUG \<Rightarrow> [''36''] | YUREI_LOG_INFO \<Rightarrow> [''32'']
     | YUREI_LOG_WARN \<Rightarrow> [''33''] | YUREI_LOG_ERROR \<Rightarrow> [''31'', ''1''])"

lemma level_color_codes:
  "g_color_enabled st \<Longrightarrow> level_to_color st l = concat (map (\<lambda>code. ESC # CHR ''['' # code @ ''m'') (color_codes l))"
  "list_all (\<lambda>code. CHR ''m'' \<notin> set code) (color_codes l)"
  by (cases l; simp add: level_to_color_def ansi_defs color_codes_def)+

lemma read_level_color:
  assumes "s \<noteq> []" and "hd s \<noteq> ESC"
  shows "read_sgr (level_to_color st l @ s) = (if g_color_enabled st then color_codes l else [], s)"
  using read_sgr_codes [OF level_color_codes(2), of l s] read_sgr_none [of s] assms
  by (cases "g_color_enabled st") (simp_all add: level_color_codes(1) level_to_color_off)

lemma read_reset:
  "read_sgr ((if g_color_enabled st then ANSI_RESET else []) @ '' '' @ s) = (if g_color_enabled st then [''0''] else [], '' '' @ s)"
  using read_sgr_code [of "''0''" "'' '' @ s"] read_sgr_none [of "'' '' @ s"] by (simp add: ansi_defs)

text \<open>
  C40. A call below the level prints nothing. Any other prints one line from which everything
  that was logged can be read back, whatever the message contains: the time stamp, the
  microseconds, the level and the message; with colours the line opens with the codes of the
  level, which are reset before the message, and without colours there are none.
\<close>

theorem log_line_roundtrip:
  assumes "stamp \<noteq> []" and "hd stamp \<noteq> ESC" and "CHR ''.'' \<notin> set stamp" and "nsec < 10 ^ 9"
  shows "if l < g_level st then yurei_log st stamp nsec l msg = []
    else read_log_line (yurei_log st stamp nsec l msg) =
      Some (if g_color_enabled st
              then (case l of YUREI_LOG_TRACE \<Rightarrow> [''90''] | YUREI_LOG_DEBUG \<Rightarrow> [''36''] | YUREI_LOG_INFO \<Rightarrow> [''32'']
                    | YUREI_LOG_WARN \<Rightarrow> [''33''] | YUREI_LOG_ERROR \<Rightarrow> [''31'', ''1''])
              else [],
            stamp, nsec div 1000, l, if g_color_enabled st then [''0''] else [], msg)"
proof (cases "l < g_level st")
  case False
  let ?tail = "(if g_color_enabled st then ANSI_RESET else []) @ '' '' @ msg @ ''\<newline>''"
  let ?rest = "pad6 (nsec div 1000) @ '' ['' @ level_to_string l @ '']'' @ ?tail"
  have line: "yurei_log st stamp nsec l msg = level_to_color st l @ stamp @ ''.'' @ ?rest"
    using False by (simp add: yurei_log_def)
  have "nsec div 1000 < 10 ^ 6" using assms(4) by simp
  from pad6_length [OF this] have m: "take 6 ?rest = pad6 (nsec div 1000)" "drop 8 ?rest = level_to_string l @ '']'' @ ?tail"
    "drop 14 ?rest = ?tail"
    using level_to_string_length [of l] by simp_all
  have lab: "take 5 (level_to_string l @ '']'' @ ?tail) = level_to_string l"
    using level_to_string_length [of l] by simp
  have st: "takeWhile (\<lambda>c. c \<noteq> CHR ''.'') (stamp @ ''.'' @ ?rest) = stamp"
    using assms(3) by (subst takeWhile_append2) auto
  have dr: "drop (length stamp + 1) (stamp @ ''.'' @ ?rest) = ?rest" by simp
  have sgr: "read_sgr (yurei_log st stamp nsec l msg) = (if g_color_enabled st then color_codes l else [], stamp @ ''.'' @ ?rest)"
    unfolding line by (rule read_level_color) (use assms(1,2) in simp_all)
  show ?thesis
    using False
    unfolding read_log_line_def sgr prod.case Let_def st dr m lab read_reset level_label pad6_value
    by (simp add: color_codes_def butlast_append)
qed (simp add: yurei_log_def)

theorem log_line_roundtrip_witness:
  "read_log_line (yurei_log \<lparr>g_level = YUREI_LOG_WARN, g_color_enabled = True\<rparr> ''2025-01-01 00:00:00'' 1234567
      YUREI_LOG_ERROR ''down [WARN ] 0.5'')
    = Some ([''31'', ''1''], ''2025-01-01 00:00:00'', 1234, YUREI_LOG_ERROR, [''0''], ''down [WARN ] 0.5'')
   \<and> yurei_log \<lparr>g_level = YUREI_LOG_WARN, g_color_enabled = True\<rparr> ''T'' 0 YUREI_LOG_INFO ''x'' = []"
  using log_line_roundtrip [of "''2025-01-01 00:00:00''" 1234567 YUREI_LOG_ERROR
      "\<lparr>g_level = YUREI_LOG_WARN, g_color_enabled = True\<rparr>" "''down [WARN ] 0.5''"]
    log_line_roundtrip [of "''T''" 0 YUREI_LOG_INFO "\<lparr>g_level = YUREI_LOG_WARN, g_color_enabled = True\<rparr>" "''x''"]
  by (simp add: less_YureiLogLevel_def)

text \<open>Raising the level only removes lines.\<close>

lemma visible_mono:
  "a \<le> b \<Longrightarrow> visible (yurei_log_set_level b st) evs
     = visible (yurei_log_set_level b st) (visible (yurei_log_set_level a st) evs)"
  by (auto simp: visible_def yurei_log_set_level_def intro!: filter_cong)

end
