(* ===== verification/Config.thy ===== *)
theory Config
  imports Logging
begin

text \<open>
  \<open>src/config.c\<close> and \<open>include/config.h\<close>: the configuration record, its defaults, the
  \<open>.env\<close> parser and the environment overrides. A \<open>char name[N]\<close> field is the C string it
  holds; \<open>config_wf\<close> says that it fits. The file system and the process environment are
  arguments: \<open>fopen\<close> maps a path to the bytes of the file, \<open>getenv\<close> a name to its value.
\<close>

section \<open>The record\<close>

record YureiConfig =
  rpc_endpoint :: string
  wss_endpoint :: string
  rpc_api_key :: string
  rpc_mode :: string
  poll_interval_ms :: u32
  ws_backoff_ms :: u32
  ws_backoff_max_ms :: u32
  queue_capacity :: u64
  batch_size :: u32
  rate_limit_rps :: u32
  log_color :: bool
  pumpfun_program :: string
  raydium_program :: string
  pumpfun_table :: string
  raydium_table :: string
  pg_conninfo :: string
  log_level :: string

definition fits :: "nat \<Rightarrow> string \<Rightarrow> bool" where
  "fits n s = (length s < n \<and> is_cstr s)"

definition config_wf :: "YureiConfig \<Rightarrow> bool" where
  "config_wf c = (fits 256 (rpc_endpoint c) \<and> fits 256 (wss_endpoint c)
     \<and> fits 128 (rpc_api_key c) \<and> fits 16 (rpc_mode c)
     \<and> fits 64 (pumpfun_program c) \<and> fits 64 (raydium_program c)
     \<and> fits 64 (pumpfun_table c) \<and> fits 64 (raydium_table c)
     \<and> fits 512 (pg_conninfo c) \<and> fits 16 (log_level c))"

section \<open>String and number fields\<close>

definition copy_string :: "nat \<Rightarrow> string \<Rightarrow> string" where
  "copy_string dst_len value = snprintf_str dst_len value"

definition strip_quotes :: "string \<Rightarrow> nat \<Rightarrow> string" where
  "strip_quotes value buffer_len =
     (let len = length value in
      if 2 \<le> len \<and> ((hd value = CHR 0x22 \<and> last value = CHR 0x22)
                    \<or> (hd value = CHR 0x27 \<and> last value = CHR 0x27))
      then let copy_len = (if len - 2 \<ge> buffer_len then buffer_len - 1 else len - 2)
           in take copy_len (tl value)
      else value)"

definition trim :: "string \<Rightarrow> nat \<Rightarrow> string" where
  "trim input buffer_len =
     (let start = dropWhile isspace input;
          body = rev (dropWhile isspace (rev start));
          len = (if length body \<ge> buffer_len then buffer_len - 1 else length body)
      in take len body)"

definition set_numeric_uint32 :: "u32 \<Rightarrow> string \<Rightarrow> u32" where
  "set_numeric_uint32 field value =
     (if value = [] then field
      else case strtoul value of (parsed, rest) \<Rightarrow> if rest = [] then ucast parsed else field)"

definition set_numeric_size :: "u64 \<Rightarrow> string \<Rightarrow> u64" where
  "set_numeric_size field value =
     (if value = [] then field
      else case strtoul value of (parsed, rest) \<Rightarrow> if rest = [] then parsed else field)"

section \<open>Defaults\<close>

definition apply_defaults :: YureiConfig where
  "apply_defaults = \<lparr>
     rpc_endpoint = copy_string 256 ''https://mainnet.helius-rpc.com'',
     wss_endpoint = copy_string 256 ''wss://mainnet.helius-rpc.com'',
     rpc_api_key = [],
     rpc_mode = copy_string 16 ''ws'',
     poll_interval_ms = 1000,
     ws_backoff_ms = 1000,
     ws_backoff_max_ms = 60000,
     queue_capacity = 1024,
     batch_size = 20,
     rate_limit_rps = 10,
     log_color = True,
     pumpfun_program = copy_string 64 ''6EF8rrecthR5Dkzon8Nwu78hRvfCKubJ14M5uBEwF6P'',
     raydium_program = copy_string 64 ''675kPX9MHTjS2zt1qfr1NYHuzeLXfQM9H24wFSUt1Mp8'',
     pumpfun_table = copy_string 64 ''pumpfun_trades'',
     raydium_table = copy_string 64 ''raydium_swaps'',
     pg_conninfo = copy_string 512 ''host=127.0.0.1 port=5432 dbname=yurei user=yurei password=secret'',
     log_level = copy_string 16 ''info''\<rparr>"

section \<open>One setting\<close>

definition apply_key_value :: "YureiConfig \<Rightarrow> string \<Rightarrow> string \<Rightarrow> YureiConfig" where
  "apply_key_value config key value =
     (let normalized = strip_quotes value 512 in
      if strcaseeq key ''YUREI_RPC_ENDPOINT'' then config\<lparr>rpc_endpoint := copy_string 256 normalized\<rparr>
      else if strcaseeq key ''YUREI_WSS_ENDPOINT'' then config\<lparr>wss_endpoint := copy_string 256 normalized\<rparr>
      else if strcaseeq key ''YUREI_RPC_MODE'' then config\<lparr>rpc_mode := copy_string 16 normalized\<rparr>
      else if strcaseeq key ''YUREI_POLL_INTERVAL_MS''
        then config\<lparr>poll_interval_ms := set_numeric_uint32 (poll_interval_ms config) normalized\<rparr>
      else if strcaseeq key ''YUREI_WS_BACKOFF_MS''
        then config\<lparr>ws_backoff_ms := set_numeric_uint32 (ws_backoff_ms config) normalized\<rparr>
      else if strcaseeq key ''YUREI_WS_BACKOFF_MAX_MS''
        then config\<lparr>ws_backoff_max_ms := set_numeric_uint32 (ws_backoff_max_ms config) normalized\<rparr>
      else if strcaseeq key ''YUREI_QUEUE_CAPACITY''
        then config\<lparr>queue_capacity := set_numeric_size (queue_capacity config) normalized\<rparr>
      else if strcaseeq key ''YUREI_BATCH_SIZE''
        then config\<lparr>batch_size := set_numeric_uint32 (batch_size config) normalized\<rparr>
      else if strcaseeq key ''YUREI_PUMPFUN_PROGRAM''
        then config\<lparr>pumpfun_program := copy_string 64 normalized\<rparr>
      else if strcaseeq key ''YUREI_RAYDIUM_PROGRAM''
        then config\<lparr>raydium_program := copy_string 64 normalized\<rparr>
      else if strcaseeq key ''YUREI_PUMPFUN_TABLE'' then config\<lparr>pumpfun_table := copy_string 64 normalized\<rparr>
      else if strcaseeq key ''YUREI_RAYDIUM_TABLE'' then config\<lparr>raydium_table := copy_string 64 normalized\<rparr>
      else if strcaseeq key ''YUREI_PG_CONN'' \<or> strcaseeq key ''YUREI_PG_CONNINFO''
        then config\<lparr>pg_conninfo := copy_string 512 normalized\<rparr>
      else if strcaseeq key ''YUREI_LOG_LEVEL'' then config\<lparr>log_level := copy_string 16 normalized\<rparr>
      else if strcaseeq key ''YUREI_RPC_API_KEY'' then config\<lparr>rpc_api_key := copy_string 128 normalized\<rparr>
      else if strcaseeq key ''YUREI_RATE_LIMIT''
        then config\<lparr>rate_limit_rps := set_numeric_uint32 (rate_limit_rps config) normalized\<rparr>
      else if strcaseeq key ''YUREI_LOG_COLOR''
        then config\<lparr>log_color := strcaseeq normalized ''1'' \<or> strcaseeq normalized ''true''
                                   \<or> strcaseeq normalized ''yes''\<rparr>
      else config)"

section \<open>Environment overrides\<close>

definition env_keys :: "string list" where
  "env_keys = [
     ''YUREI_RPC_ENDPOINT'', ''YUREI_WSS_ENDPOINT'', ''YUREI_RPC_API_KEY'', ''YUREI_RPC_MODE'',
     ''YUREI_POLL_INTERVAL_MS'', ''YUREI_WS_BACKOFF_MS'', ''YUREI_WS_BACKOFF_MAX_MS'',
     ''YUREI_QUEUE_CAPACITY'', ''YUREI_BATCH_SIZE'', ''YUREI_RATE_LIMIT'', ''YUREI_LOG_COLOR'',
     ''YUREI_PUMPFUN_PROGRAM'', ''YUREI_RAYDIUM_PROGRAM'', ''YUREI_PG_CONN'', ''YUREI_PG_CONNINFO'',
     ''YUREI_PUMPFUN_TABLE'', ''YUREI_RAYDIUM_TABLE'', ''YUREI_LOG_LEVEL'']"

definition env_override :: "(string \<Rightarrow> string option) \<Rightarrow> string \<Rightarrow> YureiConfig \<Rightarrow> YureiConfig" where
  "env_override getenv key config =
     (case getenv key of
        None \<Rightarrow> config
      | Some value \<Rightarrow> if value \<noteq> [] then apply_key_value config key value else config)"

definition apply_environment_overrides ::
  "(string \<Rightarrow> string option) \<Rightarrow> YureiConfig \<Rightarrow> YureiConfig" where
  "apply_environment_overrides getenv config = fold (env_override getenv) env_keys config"

section \<open>The file\<close>

text \<open>\<open>fgets\<close> with a buffer of \<open>n\<close> bytes: up to \<open>n - 1\<close> bytes, through a newline.\<close>

fun fgets_chars :: "nat \<Rightarrow> string \<Rightarrow> string \<times> string" where
  "fgets_chars 0 inp = ([], inp)"
| "fgets_chars (Suc n) [] = ([], [])"
| "fgets_chars (Suc n) (c # inp) =
     (if c = CHR 0x0A then ([c], inp)
      else case fgets_chars n inp of (l, rest) \<Rightarrow> (c # l, rest))"

definition fgets :: "nat \<Rightarrow> string \<Rightarrow> (string \<times> string) option" where
  "fgets n inp = (if inp = [] then None else Some (fgets_chars (n - 1) inp))"

text \<open>The loop body of \<open>load_env_file\<close>, on the bytes \<open>fgets\<close> left in \<open>line\<close>.\<close>

definition env_line :: "string \<Rightarrow> YureiConfig \<Rightarrow> YureiConfig" where
  "env_line line config =
     (let clean = trim (cstr line) 512 in
      if clean = [] \<or> hd clean = CHR ''#'' then config
      else case strchr clean (CHR ''='') of
        None \<Rightarrow> config
      | Some equals \<Rightarrow>
          let key = trim (take (length clean - length equals) clean) 512;
              value = trim (tl equals) 512
          in apply_key_value config key value)"

lemma fgets_chars_append: "fgets_chars n inp = (l, rest) \<Longrightarrow> inp = l @ rest"
  by (induction n inp arbitrary: l rest rule: fgets_chars.induct)
    (auto split: if_splits prod.splits)

lemma fgets_chars_progress: "0 < n \<Longrightarrow> inp \<noteq> [] \<Longrightarrow> fgets_chars n inp = (l, rest) \<Longrightarrow> l \<noteq> []"
  by (cases n; cases inp) (auto split: if_splits prod.splits)

lemma fgets_shorter: "1 < n \<Longrightarrow> fgets n inp = Some (l, rest) \<Longrightarrow> length rest < length inp"
  using fgets_chars_append [of "n - 1" inp l rest] fgets_chars_progress [of "n - 1" inp l rest]
  by (auto simp: fgets_def split: if_splits)

function load_env_lines :: "string \<Rightarrow> YureiConfig \<Rightarrow> YureiConfig" where
  "load_env_lines inp config =
     (case fgets 512 inp of
        None \<Rightarrow> config
      | Some (line, rest) \<Rightarrow> load_env_lines rest (env_line line config))"
  by pat_completeness auto
termination
  by (relation "measure (\<lambda>(inp, config). length inp)") (auto dest: fgets_shorter [of 512, simplified])

declare load_env_lines.simps [simp del]

definition load_env_file :: "(string \<Rightarrow> string option) \<Rightarrow> string \<Rightarrow> YureiConfig \<Rightarrow> YureiConfig" where
  "load_env_file fopen path config =
     (case fopen path of None \<Rightarrow> config | Some inp \<Rightarrow> load_env_lines inp config)"

section \<open>Loading\<close>

definition configure_log_level :: "YureiConfig \<Rightarrow> LogState \<Rightarrow> LogState" where
  "configure_log_level config st =
     (let st1 = yurei_log_set_color (log_color config) st in
      if strcaseeq (log_level config) ''trace'' then yurei_log_set_level YUREI_LOG_TRACE st1
      else if strcaseeq (log_level config) ''debug'' then yurei_log_set_level YUREI_LOG_DEBUG st1
      else if strcaseeq (log_level config) ''info'' then yurei_log_set_level YUREI_LOG_INFO st1
      else if strcaseeq (log_level config) ''warn'' then yurei_log_set_level YUREI_LOG_WARN st1
      else yurei_log_set_level YUREI_LOG_ERROR st1)"

definition yurei_config_print :: "YureiConfig \<Rightarrow> log_event list" where
  "yurei_config_print config = [
     (YUREI_LOG_INFO, ''RPC endpoint: '' @ rpc_endpoint config),
     (YUREI_LOG_INFO, ''WSS endpoint: '' @ wss_endpoint config),
     (YUREI_LOG_INFO, ''Mode: '' @ rpc_mode config),
     (YUREI_LOG_INFO, ''Poll interval: '' @ show_nat (unat (poll_interval_ms config)) @ '' ms''),
     (YUREI_LOG_INFO, ''Queue capacity: '' @ show_nat (unat (queue_capacity config))),
     (YUREI_LOG_INFO, ''Batch size: '' @ show_nat (unat (batch_size config))),
     (YUREI_LOG_INFO, ''DB tables: pumpfun='' @ pumpfun_table config @ '' raydium='' @ raydium_table config)]"

text \<open>
  \<open>yurei_config_load\<close>: the return code is 0; the results are the configuration, the log
  state and the calls of the logger, which the new level filters.
\<close>

definition yurei_config_load ::
  "(string \<Rightarrow> string option) \<Rightarrow> (string \<Rightarrow> string option) \<Rightarrow> string option \<Rightarrow> LogState
    \<Rightarrow> YureiConfig \<times> LogState \<times> log_event list" where
  "yurei_config_load fopen getenv path st =
     (let c1 = apply_defaults;
          c2 = (case path of Some p \<Rightarrow> load_env_file fopen p c1 | None \<Rightarrow> load_env_file fopen ''.env'' c1);
          c3 = apply_environment_overrides getenv c2;
          st1 = configure_log_level c3 st
      in (c3, st1, visible st1 (yurei_config_print c3)))"

section \<open>Every field fits its buffer\<close>

lemma strip_quotes_cstr: "is_cstr v \<Longrightarrow> is_cstr (strip_quotes v n)"
  by (cases v) (auto simp: strip_quotes_def Let_def)

lemma is_cstr_rev [simp]: "is_cstr (rev s) = is_cstr s"
  by (induction s) auto

lemma is_cstr_dropWhile [simp]: "is_cstr s \<Longrightarrow> is_cstr (dropWhile P s)"
  by (induction s) auto

lemma trim_cstr: "is_cstr s \<Longrightarrow> is_cstr (trim s n)"
  by (simp add: trim_def Let_def)

lemma trim_length: "0 < n \<Longrightarrow> length (trim s n) < n"
  by (auto simp: trim_def Let_def)

lemma copy_string_fits: "0 < n \<Longrightarrow> is_cstr v \<Longrightarrow> fits n (copy_string n v)"
  by (simp add: copy_string_def fits_def snprintf_str_length)

lemma config_wf_defaults: "config_wf apply_defaults"
  by (simp add: config_wf_def apply_defaults_def copy_string_fits) (simp add: fits_def)

lemma config_wf_apply [inv_intros]:
  assumes "config_wf c" and "is_cstr value"
  shows "config_wf (apply_key_value c key value)"
proof -
  have v: "0 < n \<Longrightarrow> fits n (copy_string n (strip_quotes value 512))" for n
    using assms(2) by (intro copy_string_fits strip_quotes_cstr)
  show ?thesis
    using assms(1) v by (simp add: apply_key_value_def Let_def config_wf_def)
qed

lemma config_wf_env_line [inv_intros]:
  assumes "config_wf c"
  shows "config_wf (env_line line c)"
proof -
  have t: "is_cstr (trim (cstr line) 512)"
    by (intro trim_cstr cstr_is_cstr)
  have "config_wf (apply_key_value c k (trim (tl e) 512))"
    if "strchr (trim (cstr line) 512) (CHR ''='') = Some e" for k e
  proof -
    from strchr_Some [OF that] t have "is_cstr e" by auto
    then have "is_cstr (tl e)" by (cases e) auto
    then show ?thesis using assms by (intro inv_intros trim_cstr)
  qed
  then show ?thesis
    using assms by (auto simp: env_line_def Let_def split: option.split)
qed

lemma config_wf_lines: "config_wf c \<Longrightarrow> config_wf (load_env_lines inp c)"
proof (induction inp c rule: load_env_lines.induct)
  case (1 inp config)
  show ?case
  proof (cases "fgets 512 inp")
    case None
    with "1.prems" show ?thesis by (subst load_env_lines.simps) simp
  next
    case (Some lr)
    obtain l r where lr: "lr = (l, r)" by (cases lr)
    with Some "1.prems" have "config_wf (load_env_lines r (env_line l config))"
      by (intro "1.IH") (auto intro: config_wf_env_line)
    with Some lr show ?thesis by (subst load_env_lines.simps) simp
  qed
qed

lemma config_wf_file [inv_intros]: "config_wf c \<Longrightarrow> config_wf (load_env_file fopen path c)"
  by (auto simp: load_env_file_def config_wf_lines split: option.split)

lemma config_wf_env_fold:
  "config_wf c \<Longrightarrow> (\<And>k v. getenv k = Some v \<Longrightarrow> is_cstr v)
    \<Longrightarrow> config_wf (fold (env_override getenv) ks c)"
proof (induction ks arbitrary: c)
  case (Cons k ks)
  have "config_wf (env_override getenv k c)"
    using Cons.prems by (auto simp: env_override_def intro: inv_intros split: option.split)
  then show ?case using Cons by simp
qed simp

text \<open>
  C38. Whatever the file and the environment hold, every string field of the loaded
  configuration is a C string that fits its buffer.
\<close>

theorem config_load_fits:
  assumes "\<And>k v. getenv k = Some v \<Longrightarrow> is_cstr v"
  shows "config_wf (fst (yurei_config_load fopen getenv path st))"
  using assms
  by (cases path) (simp_all add: yurei_config_load_def Let_def apply_environment_overrides_def
      config_wf_env_fold config_wf_file config_wf_defaults)

theorem config_load_fits_witness:
  "config_wf (fst (yurei_config_load (\<lambda>_. Some ''YUREI_RPC_MODE=a-mode-that-is-longer-than-the-field'')
     (\<lambda>k. Some ''v'') None log_state_init))"
  by (rule config_load_fits) auto

section \<open>The settings in force after the environment overrides\<close>

lemma tolower_literals:
  "tolower CHR ''A'' = CHR ''a''" "tolower CHR ''B'' = CHR ''b''" "tolower CHR ''C'' = CHR ''c''"
  "tolower CHR ''D'' = CHR ''d''" "tolower CHR ''E'' = CHR ''e''" "tolower CHR ''F'' = CHR ''f''"
  "tolower CHR ''G'' = CHR ''g''" "tolower CHR ''H'' = CHR ''h''" "tolower CHR ''I'' = CHR ''i''"
  "tolower CHR ''K'' = CHR ''k''" "tolower CHR ''L'' = CHR ''l''" "tolower CHR ''M'' = CHR ''m''"
  "tolower CHR ''N'' = CHR ''n''" "tolower CHR ''O'' = CHR ''o''" "tolower CHR ''P'' = CHR ''p''"
  "tolower CHR ''Q'' = CHR ''q''" "tolower CHR ''R'' = CHR ''r''" "tolower CHR ''S'' = CHR ''s''"
  "tolower CHR ''T'' = CHR ''t''" "tolower CHR ''U'' = CHR ''u''" "tolower CHR ''V'' = CHR ''v''"
  "tolower CHR ''W'' = CHR ''w''" "tolower CHR ''X'' = CHR ''x''" "tolower CHR ''Y'' = CHR ''y''"
  "tolower CHR ''Z'' = CHR ''z''" "tolower CHR ''_'' = CHR ''_''"
  by code_simp+

lemmas key_simps = strcaseeq_def tolower_literals

text \<open>
  What the environment does to one field: \<open>env_string\<close> and \<open>env_number\<close> give the field's
  new value from its old one.
\<close>

definition env_value :: "(string \<Rightarrow> string option) \<Rightarrow> string \<Rightarrow> string option" where
  "env_value getenv key = (case getenv key of None \<Rightarrow> None | Some v \<Rightarrow>
     if v \<noteq> [] then Some (strip_quotes v 512) else None)"

definition env_string :: "(string \<Rightarrow> string option) \<Rightarrow> string \<Rightarrow> nat \<Rightarrow> string \<Rightarrow> string" where
  "env_string getenv key n old = (case env_value getenv key of None \<Rightarrow> old | Some v \<Rightarrow> copy_string n v)"

definition env_uint32 :: "(string \<Rightarrow> string option) \<Rightarrow> string \<Rightarrow> u32 \<Rightarrow> u32" where
  "env_uint32 getenv key old = (case env_value getenv key of None \<Rightarrow> old | Some v \<Rightarrow> set_numeric_uint32 old v)"

definition env_size :: "(string \<Rightarrow> string option) \<Rightarrow> string \<Rightarrow> u64 \<Rightarrow> u64" where
  "env_size getenv key old = (case env_value getenv key of None \<Rightarrow> old | Some v \<Rightarrow> set_numeric_size old v)"

definition env_color :: "(string \<Rightarrow> string option) \<Rightarrow> string \<Rightarrow> bool \<Rightarrow> bool" where
  "env_color getenv key old = (case env_value getenv key of None \<Rightarrow> old
     | Some v \<Rightarrow> strcaseeq v ''1'' \<or> strcaseeq v ''true'' \<or> strcaseeq v ''yes'')"

lemmas env_defs = env_override_def env_value_def env_string_def env_uint32_def env_size_def
  env_color_def apply_key_value_def Let_def

lemma env_override_fields:
  "env_override g ''YUREI_RPC_ENDPOINT'' c = c\<lparr>rpc_endpoint := env_string g ''YUREI_RPC_ENDPOINT'' 256 (rpc_endpoint c)\<rparr>"
  "env_override g ''YUREI_WSS_ENDPOINT'' c = c\<lparr>wss_endpoint := env_string g ''YUREI_WSS_ENDPOINT'' 256 (wss_endpoint c)\<rparr>"
  "env_override g ''YUREI_RPC_API_KEY'' c = c\<lparr>rpc_api_key := env_string g ''YUREI_RPC_API_KEY'' 128 (rpc_api_key c)\<rparr>"
  "env_override g ''YUREI_RPC_MODE'' c = c\<lparr>rpc_mode := env_string g ''YUREI_RPC_MODE'' 16 (rpc_mode c)\<rparr>"
  "env_override g ''YUREI_POLL_INTERVAL_MS'' c = c\<lparr>poll_interval_ms := env_uint32 g ''YUREI_POLL_INTERVAL_MS'' (poll_interval_ms c)\<rparr>"
  "env_override g ''YUREI_WS_BACKOFF_MS'' c = c\<lparr>ws_backoff_ms := env_uint32 g ''YUREI_WS_BACKOFF_MS'' (ws_backoff_ms c)\<rparr>"
  "env_override g ''YUREI_WS_BACKOFF_MAX_MS'' c = c\<lparr>ws_backoff_max_ms := env_uint32 g ''YUREI_WS_BACKOFF_MAX_MS'' (ws_backoff_max_ms c)\<rparr>"
  "env_override g ''YUREI_QUEUE_CAPACITY'' c = c\<lparr>queue_capacity := env_size g ''YUREI_QUEUE_CAPACITY'' (queue_capacity c)\<rparr>"
  "env_override g ''YUREI_BATCH_SIZE'' c = c\<lparr>batch_size := env_uint32 g ''YUREI_BATCH_SIZE'' (batch_size c)\<rparr>"
  by (cases c; simp add: env_defs key_simps split: option.split)+

lemma env_override_fields2:
  "env_override g ''YUREI_RATE_LIMIT'' c = c\<lparr>rate_limit_rps := env_uint32 g ''YUREI_RATE_LIMIT'' (rate_limit_rps c)\<rparr>"
  "env_override g ''YUREI_LOG_COLOR'' c = c\<lparr>log_color := env_color g ''YUREI_LOG_COLOR'' (log_color c)\<rparr>"
  "env_override g ''YUREI_PUMPFUN_PROGRAM'' c = c\<lparr>pumpfun_program := env_string g ''YUREI_PUMPFUN_PROGRAM'' 64 (pumpfun_program c)\<rparr>"
  "env_override g ''YUREI_RAYDIUM_PROGRAM'' c = c\<lparr>raydium_program := env_string g ''YUREI_RAYDIUM_PROGRAM'' 64 (raydium_program c)\<rparr>"
  "env_override g ''YUREI_PG_CONN'' c = c\<lparr>pg_conninfo := env_string g ''YUREI_PG_CONN'' 512 (pg_conninfo c)\<rparr>"
  "env_override g ''YUREI_PG_CONNINFO'' c = c\<lparr>pg_conninfo := env_string g ''YUREI_PG_CONNINFO'' 512 (pg_conninfo c)\<rparr>"
  "env_override g ''YUREI_PUMPFUN_TABLE'' c = c\<lparr>pumpfun_table := env_string g ''YUREI_PUMPFUN_TABLE'' 64 (pumpfun_table c)\<rparr>"
  "env_override g ''YUREI_RAYDIUM_TABLE'' c = c\<lparr>raydium_table := env_string g ''YUREI_RAYDIUM_TABLE'' 64 (raydium_table c)\<rparr>"
  "env_override g ''YUREI_LOG_LEVEL'' c = c\<lparr>log_level := env_string g ''YUREI_LOG_LEVEL'' 16 (log_level c)\<rparr>"
  by (cases c; simp add: env_defs key_simps split: option.split)+

text \<open>
  C35. The environment takes precedence field by field: each field is the value its own
  variable gives it, the field's earlier value where the variable is unset or empty, and
  \<open>YUREI_PG_CONNINFO\<close> takes precedence over \<open>YUREI_PG_CONN\<close>.
\<close>

theorem environment_overrides_effect:
  "apply_environment_overrides g c = \<lparr>
     rpc_endpoint = env_string g ''YUREI_RPC_ENDPOINT'' 256 (rpc_endpoint c),
     wss_endpoint = env_string g ''YUREI_WSS_ENDPOINT'' 256 (wss_endpoint c),
     rpc_api_key = env_string g ''YUREI_RPC_API_KEY'' 128 (rpc_api_key c),
     rpc_mode = env_string g ''YUREI_RPC_MODE'' 16 (rpc_mode c),
     poll_interval_ms = env_uint32 g ''YUREI_POLL_INTERVAL_MS'' (poll_interval_ms c),
     ws_backoff_ms = env_uint32 g ''YUREI_WS_BACKOFF_MS'' (ws_backoff_ms c),
     ws_backoff_max_ms = env_uint32 g ''YUREI_WS_BACKOFF_MAX_MS'' (ws_backoff_max_ms c),
     queue_capacity = env_size g ''YUREI_QUEUE_CAPACITY'' (queue_capacity c),
     batch_size = env_uint32 g ''YUREI_BATCH_SIZE'' (batch_size c),
     rate_limit_rps = env_uint32 g ''YUREI_RATE_LIMIT'' (rate_limit_rps c),
     log_color = env_color g ''YUREI_LOG_COLOR'' (log_color c),
     pumpfun_program = env_string g ''YUREI_PUMPFUN_PROGRAM'' 64 (pumpfun_program c),
     raydium_program = env_string g ''YUREI_RAYDIUM_PROGRAM'' 64 (raydium_program c),
     pumpfun_table = env_string g ''YUREI_PUMPFUN_TABLE'' 64 (pumpfun_table c),
     raydium_table = env_string g ''YUREI_RAYDIUM_TABLE'' 64 (raydium_table c),
     pg_conninfo = env_string g ''YUREI_PG_CONNINFO'' 512 (env_string g ''YUREI_PG_CONN'' 512 (pg_conninfo c)),
     log_level = env_string g ''YUREI_LOG_LEVEL'' 16 (log_level c)\<rparr>"
  by (simp add: apply_environment_overrides_def env_keys_def env_override_fields env_override_fields2)

end
