(* ===== verification/Env_File.thy ===== *)
theory Env_File
  imports Config
begin

text \<open>
  What \<open>load_env_file\<close> of \<open>src/config.c\<close> makes of a file: it reads it line by line, skips
  comments and lines with no equals sign, splits the others at the first equals sign and
  trims both sides. Then what it makes of numbers, and of lines that do not fit its buffer.
\<close>

abbreviation NL :: char where
  "NL \<equiv> CHR 0x0A"

lemma NL_space [simp]: "isspace NL" "NL \<noteq> NUL"
  by (simp_all add: isspace_def)

section \<open>Trimming\<close>

definition spaces :: "string \<Rightarrow> bool" where
  "spaces w = list_all isspace w"

definition core :: "string \<Rightarrow> bool" where
  "core s = (s = [] \<or> (\<not> isspace (hd s) \<and> \<not> isspace (last s)))"

lemma spaces_simps [simp]: "spaces []" "spaces (c # w) = (isspace c \<and> spaces w)"
  "spaces (v @ w) = (spaces v \<and> spaces w)" "spaces (rev w) = spaces w"
  by (auto simp: spaces_def)

lemma dropWhile_spaces: "spaces w \<Longrightarrow> s = [] \<or> \<not> isspace (hd s) \<Longrightarrow> dropWhile isspace (w @ s) = s"
  by (induction w) (auto simp: dropWhile_none)

lemma spaces_dropWhile [simp]: "spaces w \<Longrightarrow> dropWhile isspace w = []"
  by (simp add: spaces_def list_all_iff)

lemma trim_take: "trim s n = take (n - 1) (rev (dropWhile isspace (rev (dropWhile isspace s))))"
  by (auto simp: trim_def Let_def)

lemma trim_core:
  assumes "spaces u" and "spaces w" and "core s" and "length s < n"
  shows "trim (u @ s @ w) n = s"
proof (cases "s = []")
  case True
  with assms show ?thesis by (simp add: trim_def spaces_dropWhile)
next
  case False
  with assms have h: "\<not> isspace (hd s)" "\<not> isspace (last s)" by (auto simp: core_def)
  have "dropWhile isspace (u @ s @ w) = s @ w"
    using dropWhile_spaces [of u "s @ w"] assms(1) h(1) False by simp
  moreover have "dropWhile isspace (rev w @ rev s) = rev s"
    using dropWhile_spaces [of "rev w" "rev s"] assms(2) h(2) False by (simp add: hd_rev)
  ultimately show ?thesis using assms(4) by (simp add: trim_def Let_def)
qed

lemma trim_trailing: "spaces w \<Longrightarrow> trim (s @ w) n = trim s n"
proof -
  assume w: "spaces w"
  have "rev (dropWhile isspace (rev (dropWhile isspace (s @ w))))
      = rev (dropWhile isspace (rev (dropWhile isspace s)))"
  proof (cases "spaces s")
    case True
    then show ?thesis using w by (simp add: spaces_dropWhile)
  next
    case False
    then obtain x where "x \<in> set s" "\<not> isspace x" by (auto simp: spaces_def list_all_iff)
    then have "dropWhile isspace (s @ w) = dropWhile isspace s @ w" by (auto simp: dropWhile_append)
    moreover have "dropWhile isspace (rev w @ v) = dropWhile isspace v" for v
      using w by (induction w rule: rev_induct) auto
    ultimately show ?thesis by simp
  qed
  then show ?thesis by (simp add: trim_take)
qed

section \<open>One line\<close>

lemma cstr_append_NL: "cstr (l @ [NL]) = cstr l @ (if NUL \<in> set l then [] else [NL])"
  by (induction l) (auto simp: cstr_def)

lemma env_line_NL [simp]: "env_line (l @ [NL]) c = env_line l c"
  by (simp add: env_line_def cstr_append_NL trim_trailing)

lemma core_length_trim: "core s \<Longrightarrow> spaces u \<Longrightarrow> spaces w \<Longrightarrow> length (u @ s @ w) < n \<Longrightarrow> trim (u @ s @ w) n = s"
  by (rule trim_core) auto

text \<open>A blank line, a comment and a line with no equals sign set nothing.\<close>

lemma env_line_blank: "spaces w \<Longrightarrow> env_line w c = c"
proof -
  assume w: "spaces w"
  then have "spaces (cstr w)" by (auto simp: spaces_def cstr_def list_all_iff dest: set_takeWhileD)
  then have "trim (cstr w) 512 = []" using trim_trailing [of "cstr w" "[]" 512] by (simp add: trim_def)
  then show ?thesis by (simp add: env_line_def)
qed

lemma env_line_comment: "spaces w \<Longrightarrow> is_cstr w \<Longrightarrow> env_line (w @ CHR ''#'' # l) c = c"
proof -
  assume w: "spaces w" "is_cstr w"
  have s: "\<not> isspace (CHR ''#'')" by (simp add: isspace_def)
  have "cstr (w @ CHR ''#'' # l) = w @ CHR ''#'' # cstr l"
    using w(2) by (induction w) (auto simp: cstr_def)
  moreover have "dropWhile isspace (w @ CHR ''#'' # cstr l) = CHR ''#'' # cstr l"
    using dropWhile_spaces [OF w(1), of "CHR ''#'' # cstr l"] s by simp
  moreover have "\<exists>v. rev (dropWhile isspace (rev (CHR ''#'' # cstr l))) = CHR ''#'' # v"
    using s by (cases "spaces (cstr l)")
      (auto simp: dropWhile_append spaces_def list_all_iff intro: exI [of _ "rev (dropWhile isspace (rev (cstr l)))"])
  ultimately obtain v where "trim (cstr (w @ CHR ''#'' # l)) 512 = take 511 (CHR ''#'' # v)"
    by (auto simp: trim_take)
  then show ?thesis by (simp add: env_line_def)
qed

lemma env_line_clean:
  assumes "is_cstr line" and "trim line 512 = k @ CHR ''='' # v"
    and "CHR ''='' \<notin> set k" and "k \<noteq> []" and "hd k \<noteq> CHR ''#''"
  shows "env_line line c = apply_key_value c (trim k 512) (trim v 512)"
  using assms by (simp add: env_line_def Let_def strchr_split)

text \<open>
  C37. A line \<open>key = value\<close>, with any white space around the key and the value, applies that
  setting: the key is what stands before the first equals sign, and the value may itself
  hold equals signs.
\<close>

theorem env_line_setting:
  assumes "spaces (w1 @ w2 @ w3 @ w4)" and "is_cstr (w1 @ key @ w2 @ w3 @ val @ w4)"
    and "core key" and "key \<noteq> []" and "CHR ''='' \<notin> set key" and "hd key \<noteq> CHR ''#''" and "core val"
    and "length (w1 @ key @ w2 @ ''='' @ w3 @ val @ w4) < 512"
  shows "env_line (w1 @ key @ w2 @ ''='' @ w3 @ val @ w4) c = apply_key_value c key val"
proof -
  let ?line = "w1 @ key @ w2 @ ''='' @ w3 @ val @ w4"
  have eq: "\<not> isspace (CHR ''='')" by (simp add: isspace_def)
  have cs: "is_cstr ?line" using assms(2) by simp
  have w2: "CHR ''='' \<notin> set w2" using assms(1) eq by (auto simp: spaces_def list_all_iff)
  have tv: "trim (w3 @ val) 512 = val"
    using assms(1,7,8) trim_core [of w3 "[]" val 512] by simp
  have tk: "trim (key @ w2) 512 = key"
    using assms(1,3,8) trim_core [of "[]" w2 key 512] by simp
  show ?thesis
  proof (cases "val = []")
    case True
    have "core (key @ w2 @ ''='')" using assms(3,4) eq by (auto simp: core_def)
    then have "trim ?line 512 = (key @ w2) @ CHR ''='' # []"
      using True assms(1,8) trim_core [of w1 "w3 @ w4" "key @ w2 @ ''=''" 512] by simp
    from env_line_clean [OF cs this] show ?thesis
      using w2 assms(4,5,6) tk True by (simp add: trim_def)
  next
    case False
    have "core (key @ w2 @ ''='' @ w3 @ val)" using assms(3,4,7) False by (auto simp: core_def)
    then have "trim ?line 512 = (key @ w2) @ CHR ''='' # (w3 @ val)"
      using assms(1,8) trim_core [of w1 w4 "key @ w2 @ ''='' @ w3 @ val" 512] by simp
    from env_line_clean [OF cs this] show ?thesis
      using w2 assms(4,5,6) tk tv by simp
  qed
qed

theorem env_line_setting_witness:
  "env_line ''  YUREI_PG_CONN =  host=db port=5432 '' apply_defaults
    = apply_key_value apply_defaults ''YUREI_PG_CONN'' ''host=db port=5432''"
  using env_line_setting [of "''  ''" "'' ''" "''  ''" "'' ''" "''YUREI_PG_CONN''" "''host=db port=5432''" apply_defaults]
  by (simp add: core_def isspace_def)

section \<open>The whole file\<close>

lemma fgets_chars_line:
  "NL \<notin> set l \<Longrightarrow> length l < n \<Longrightarrow> fgets_chars n (l @ NL # r) = (l @ [NL], r)"
proof (induction l arbitrary: n)
  case Nil
  then show ?case by (cases n) auto
next
  case (Cons c l)
  then show ?case by (cases n) auto
qed

lemma fgets_chars_cut: "NL \<notin> set l \<Longrightarrow> length l = n \<Longrightarrow> fgets_chars n (l @ r) = (l, r)"
proof (induction l arbitrary: n)
  case (Cons c l)
  then show ?case by (cases n) auto
qed simp

lemma fgets_chars_end: "NL \<notin> set l \<Longrightarrow> length l \<le> n \<Longrightarrow> fgets_chars n l = (l, [])"
proof (induction l arbitrary: n)
  case Nil
  then show ?case by (cases n) auto
next
  case (Cons c l)
  then show ?case by (cases n) auto
qed

lemma load_env_lines_Nil [simp]: "load_env_lines [] c = c"
  by (subst load_env_lines.simps) (simp add: fgets_def)

lemma load_env_lines_Cons:
  assumes "NL \<notin> set l" and "length l < 511"
  shows "load_env_lines (l @ NL # r) c = load_env_lines r (env_line l c)"
  by (subst load_env_lines.simps) (simp add: fgets_def fgets_chars_line assms)

lemma load_env_lines_last:
  assumes "NL \<notin> set l" and "length l < 512"
  shows "load_env_lines l c = env_line l c"
proof (cases "l = []")
  case True
  then show ?thesis by (simp add: env_line_blank)
next
  case False
  with assms show ?thesis by (subst load_env_lines.simps) (simp add: fgets_def fgets_chars_end)
qed

definition short_line :: "string \<Rightarrow> bool" where
  "short_line l = (NL \<notin> set l \<and> length l < 511)"

text \<open>
  C36. A file whose lines have at most 510 characters is applied line by line, in order,
  whether or not the last line ends in a newline: a later setting of a key overrides an
  earlier one, as \<open>apply_key_value\<close> does.
\<close>

theorem load_env_lines_fold:
  assumes "list_all short_line ls" and "short_line final_line"
  shows "load_env_lines (concat (map (\<lambda>l. l @ [NL]) ls) @ final_line) c
           = env_line final_line (fold env_line ls c)"
  using assms(1)
proof (induction ls arbitrary: c)
  case Nil
  with assms(2) show ?case by (simp add: load_env_lines_last short_line_def)
next
  case (Cons l ls)
  then have "load_env_lines (l @ NL # concat (map (\<lambda>l. l @ [NL]) ls) @ final_line) c
      = load_env_lines (concat (map (\<lambda>l. l @ [NL]) ls) @ final_line) (env_line l c)"
    by (intro load_env_lines_Cons) (auto simp: short_line_def)
  with Cons show ?case by simp
qed

theorem load_env_lines_fold_witness:
  "load_env_lines (concat (map (\<lambda>l. l @ [NL]) [''# comment'', ''YUREI_RPC_MODE=http'']) @ ''YUREI_RPC_MODE=ws'') apply_defaults
     = env_line ''YUREI_RPC_MODE=ws'' (fold env_line [''# comment'', ''YUREI_RPC_MODE=http''] apply_defaults)"
  by (rule load_env_lines_fold) (simp_all add: short_line_def)

text \<open>
  A longer line is not skipped or rejected: \<open>fgets\<close> cuts it after 511 characters and the
  rest is parsed as a line of its own, so the tail of a long comment is read as settings.
\<close>

theorem load_env_long_comment:
  assumes "length (CHR ''#'' # l) = 511" and "NL \<notin> set l"
  shows "load_env_lines ((CHR ''#'' # l) @ tail) c = load_env_lines tail c"
proof -
  have "fgets 512 ((CHR ''#'' # l) @ tail) = Some (CHR ''#'' # l, tail)"
    using fgets_chars_cut [of "CHR ''#'' # l" 511 tail] assms by (simp add: fgets_def)
  then show ?thesis
    using env_line_comment [of "[]" l c] by (subst load_env_lines.simps) simp
qed

theorem load_env_long_comment_witness:
  "load_env_lines ((CHR ''#'' # replicate 510 (CHR ''-'')) @ ''YUREI_LOG_COLOR=0'') apply_defaults
     = apply_defaults\<lparr>log_color := False\<rparr>"
proof -
  have "load_env_lines ((CHR ''#'' # replicate 510 (CHR ''-'')) @ ''YUREI_LOG_COLOR=0'') apply_defaults
      = load_env_lines ''YUREI_LOG_COLOR=0'' apply_defaults"
    by (rule load_env_long_comment) auto
  also have "\<dots> = env_line ''YUREI_LOG_COLOR=0'' apply_defaults"
    by (rule load_env_lines_last) auto
  also have "\<dots> = apply_key_value apply_defaults (trim ''YUREI_LOG_COLOR'' 512) (trim ''0'' 512)"
    by (rule env_line_clean) (simp_all add: trim_def isspace_def)
  also have "\<dots> = apply_defaults\<lparr>log_color := False\<rparr>"
    by (simp add: trim_def isspace_def apply_key_value_def key_simps strip_quotes_def tolower_def)
  finally show ?thesis .
qed

section \<open>Numbers\<close>

text \<open>
  C39. A decimal number below \<open>2 ^ 64\<close> sets a \<open>uint32_t\<close> field to its low 32 bits and a
  \<open>size_t\<close> field to itself; text that does not parse to its end, and empty text, leave the
  field as it was.
\<close>

theorem set_numeric_spec:
  "(n < 2 ^ 64 \<longrightarrow> unat (set_numeric_uint32 old (show_nat n)) = n mod 2 ^ 32
                     \<and> set_numeric_size old' (show_nat n) = of_nat n)
   \<and> (val = [] \<or> snd (strtoul val) \<noteq> [] \<longrightarrow> set_numeric_uint32 old val = old \<and> set_numeric_size old' val = old')"
proof (intro conjI impI)
  assume n: "n < 2 ^ 64"
  then have "strtoul (show_nat n @ []) = (of_nat n, [])"
    by (subst strtoul_digits) (auto simp: show_nat_digits ULONG_MAX_def)
  then have s: "strtoul (show_nat n) = (of_nat n, [])" by simp
  have "unat (ucast (of_nat n :: u64) :: u32) = n mod 2 ^ 32"
    by (simp add: unsigned_ucast_eq unsigned_of_nat) (simp add: take_bit_eq_mod)
  with s show "unat (set_numeric_uint32 old (show_nat n)) = n mod 2 ^ 32"
    by (simp add: set_numeric_uint32_def)
  from s show "set_numeric_size old' (show_nat n) = of_nat n"
    by (simp add: set_numeric_size_def)
qed (auto simp: set_numeric_uint32_def set_numeric_size_def split: prod.splits)

theorem set_numeric_spec_witness:
  "set_numeric_uint32 10 (show_nat (2 ^ 32)) = 0 \<and> set_numeric_uint32 10 ''25rps'' = 10"
proof -
  have "snd (strtoul ''25rps'') = ''rps''"
    by (simp add: strtoul_def isspace_def isdigit_def Let_def ULONG_MAX_def digit_val_def)
  then show ?thesis using set_numeric_spec [of "2 ^ 32" 10 0 "''25rps''"] by (simp add: unat_eq_0)
qed

end
