(* ===== verification/Queue_Interface.thy ===== *)
theory Queue_Interface
  imports Yurei_Prelude
begin

text \<open>
  The contracts of the event queue, as its two kinds of client see it. A network thread
  only pushes: \<open>event_sink\<close>. The database thread pops and the main thread closes:
  \<open>event_channel\<close> extends the sink. The lemmas here hold for every provider of the contract;
  theory \<open>Event_Queue\<close> interprets both locales on the ring buffer of the code.
\<close>

section \<open>Pushing a batch\<close>

text \<open>
  Calls of \<open>push\<close> one after the other, as one message of the parser makes them: how many
  returned 0, and the queue after them; \<open>None\<close> when one of them has to wait.
\<close>

primrec push_list :: "('q \<Rightarrow> 'e \<Rightarrow> (int \<times> 'q) option) \<Rightarrow> 'q \<Rightarrow> 'e list \<Rightarrow> (nat \<times> 'q) option" where
  "push_list push q [] = Some (0, q)"
| "push_list push q (e # es) =
     (case push q e of
        None \<Rightarrow> None
      | Some (rc, q') \<Rightarrow>
          map_option (\<lambda>(n, q''). (if rc = 0 then Suc n else n, q'')) (push_list push q' es))"

locale event_sink =
  fixes push :: "'q \<Rightarrow> 'e \<Rightarrow> (int \<times> 'q) option"
    and contents :: "'q \<Rightarrow> 'e list"
    and capacity :: "'q \<Rightarrow> nat"
    and closed :: "'q \<Rightarrow> bool"
    and inv :: "'q \<Rightarrow> bool"
  assumes inv_bound: "inv q \<Longrightarrow> length (contents q) \<le> capacity q"
    and push_waits: "inv q \<Longrightarrow> push q e = None \<longleftrightarrow> length (contents q) = capacity q \<and> \<not> closed q"
    and push_closed: "inv q \<Longrightarrow> closed q \<Longrightarrow> push q e = Some (-1, q)"
    and push_open: "inv q \<Longrightarrow> \<not> closed q \<Longrightarrow> push q e = Some (rc, q') \<Longrightarrow>
      rc = 0 \<and> contents q' = contents q @ [e] \<and> capacity q' = capacity q \<and> \<not> closed q' \<and> inv q'"
begin

lemma push_inv: "inv q \<Longrightarrow> push q e = Some (rc, q') \<Longrightarrow> inv q'"
  by (cases "closed q") (auto simp: push_closed dest: push_open)

lemma push_keeps: "inv q \<Longrightarrow> push q e = Some (rc, q') \<Longrightarrow> capacity q' = capacity q \<and> closed q' = closed q"
  by (cases "closed q") (auto simp: push_closed dest: push_open)

lemma push_result:
  assumes "inv q" and "push q e = Some (rc, q')"
  shows "contents q' = contents q @ (if rc = 0 then [e] else [])" and "rc = 0 \<longleftrightarrow> \<not> closed q"
  using assms by (cases "closed q"; auto simp: push_closed dest: push_open)+

lemma push_list_closed:
  "inv q \<Longrightarrow> closed q \<Longrightarrow> push_list push q es = Some (0, q)"
  by (induction es) (simp_all add: push_closed)

text \<open>A batch that fits the free slots goes in whole, in order, without waiting.\<close>

lemma push_list_fits:
  assumes "inv q" and "\<not> closed q" and "length (contents q) + length es \<le> capacity q"
  shows "\<exists>q'. push_list push q es = Some (length es, q') \<and> contents q' = contents q @ es
    \<and> capacity q' = capacity q \<and> \<not> closed q' \<and> inv q'"
  using assms
proof (induction es arbitrary: q)
  case (Cons e es)
  have "length (contents q) \<noteq> capacity q" using Cons.prems(3) by auto
  then obtain rc q1 where p: "push q e = Some (rc, q1)"
    using push_waits [OF Cons.prems(1), of e] by (cases "push q e") auto
  note o = push_open [OF Cons.prems(1,2) p]
  then have "length (contents q1) + length es \<le> capacity q1" using Cons.prems(3) by simp
  then obtain q' where "push_list push q1 es = Some (length es, q')" "contents q' = contents q1 @ es"
    "capacity q' = capacity q1" "\<not> closed q'" "inv q'"
    using Cons.IH [of q1] o by blast
  with p o show ?case by simp
qed simp

text \<open>A batch that does not fit an open queue has to wait for the consumer.\<close>

lemma push_list_waits:
  assumes "inv q" and "\<not> closed q" and "capacity q < length (contents q) + length es"
  shows "push_list push q es = None"
  using assms
proof (induction es arbitrary: q)
  case Nil
  then show ?case using inv_bound [of q] by simp
next
  case (Cons e es)
  show ?case
  proof (cases "push q e")
    case (Some r)
    obtain rc q1 where r: "r = (rc, q1)" by (cases r)
    note o = push_open [OF Cons.prems(1,2) Some [unfolded r]]
    with Cons.prems(3) have "push_list push q1 es = None" by (intro Cons.IH) auto
    with Some r show ?thesis by simp
  qed simp
qed

end

section \<open>A channel\<close>

locale event_channel = event_sink push contents capacity closed inv
  for push :: "'q \<Rightarrow> 'e \<Rightarrow> (int \<times> 'q) option"
    and contents :: "'q \<Rightarrow> 'e list"
    and capacity :: "'q \<Rightarrow> nat"
    and closed :: "'q \<Rightarrow> bool"
    and inv :: "'q \<Rightarrow> bool" +
  fixes pop :: "'q \<Rightarrow> (int \<times> 'e option \<times> 'q) option"
    and close :: "'q \<Rightarrow> 'q"
  assumes pop_waits: "inv q \<Longrightarrow> pop q = None \<longleftrightarrow> contents q = [] \<and> \<not> closed q"
    and pop_end: "inv q \<Longrightarrow> closed q \<Longrightarrow> contents q = [] \<Longrightarrow> pop q = Some (-1, None, q)"
    and pop_event: "inv q \<Longrightarrow> contents q \<noteq> [] \<Longrightarrow> pop q = Some (rc, r, q') \<Longrightarrow>
      rc = 0 \<and> (\<exists>e. r = Some e \<and> contents q = e # contents q')
        \<and> capacity q' = capacity q \<and> closed q' = closed q \<and> inv q'"
    and close_contents: "contents (close q) = contents q"
    and close_capacity: "capacity (close q) = capacity q"
    and close_closed: "closed (close q)"
    and close_inv: "inv q \<Longrightarrow> inv (close q)"

text \<open>
  A history: the calls the threads complete, in the order they hold the mutex. A call that
  would wait has not completed and changes nothing. The run collects the events whose push
  returned 0 and the events that were popped.
\<close>

datatype 'e queue_call = Push 'e | Pop | Close

fun queue_run ::
  "('q \<Rightarrow> 'e \<Rightarrow> (int \<times> 'q) option) \<Rightarrow> ('q \<Rightarrow> (int \<times> 'e option \<times> 'q) option) \<Rightarrow> ('q \<Rightarrow> 'q)
    \<Rightarrow> 'e queue_call list \<Rightarrow> 'q \<Rightarrow> 'e list \<times> 'e list \<times> 'q" where
  "queue_run push pop close [] q = ([], [], q)"
| "queue_run push pop close (Push e # cs) q =
     (case push q e of
        None \<Rightarrow> queue_run push pop close cs q
      | Some (rc, q1) \<Rightarrow> (case queue_run push pop close cs q1 of
            (ins, outs, q2) \<Rightarrow> (if rc = 0 then e # ins else ins, outs, q2)))"
| "queue_run push pop close (Pop # cs) q =
     (case pop q of
        None \<Rightarrow> queue_run push pop close cs q
      | Some (rc, r, q1) \<Rightarrow> (case queue_run push pop close cs q1 of
            (ins, outs, q2) \<Rightarrow> (ins, (case r of Some e \<Rightarrow> e # outs | None \<Rightarrow> outs), q2)))"
| "queue_run push pop close (Close # cs) q = queue_run push pop close cs (close q)"

context event_channel
begin

lemma pop_cases:
  assumes "inv q" and "pop q = Some (rc, r, q')"
  shows "inv q' \<and> capacity q' = capacity q \<and> closed q' = closed q
    \<and> contents q = (case r of Some e \<Rightarrow> e # contents q' | None \<Rightarrow> contents q')
    \<and> (r = None \<longleftrightarrow> rc = -1) \<and> (r = None \<longrightarrow> contents q = [] \<and> closed q)"
proof (cases "contents q = []")
  case True
  with assms pop_waits [OF assms(1)] have "closed q" by auto
  with True assms pop_end show ?thesis by auto
next
  case False
  with assms pop_event [OF assms(1) False assms(2)] show ?thesis by auto
qed

text \<open>
  First in, first out, nothing lost and nothing made up: what was in the queue and what was
  accepted is, in this order, what was delivered and what is still in the queue.
\<close>

lemma run_fifo:
  assumes "inv q" and "queue_run push pop close cs q = (ins, outs, q')"
  shows "inv q' \<and> contents q @ ins = outs @ contents q' \<and> capacity q' = capacity q
    \<and> (closed q \<longrightarrow> ins = [] \<and> closed q')"
  using assms
proof (induction cs arbitrary: q ins outs q')
  case (Cons c cs)
  show ?case
  proof (cases c)
    case (Push e)
    show ?thesis
    proof (cases "push q e")
      case None
      with Push Cons show ?thesis by simp
    next
      case (Some r)
      obtain rc q1 where r: "r = (rc, q1)" by (cases r)
      obtain ins1 outs1 q2 where run: "queue_run push pop close cs q1 = (ins1, outs1, q2)"
        by (cases "queue_run push pop close cs q1")
      note p = Some [unfolded r]
      from Cons.IH [OF push_inv [OF Cons.prems(1) p] run]
        push_keeps [OF Cons.prems(1) p] push_result [OF Cons.prems(1) p]
      show ?thesis using Cons.prems(2) Push p run by (auto split: if_splits)
    qed
  next
    case Pop
    show ?thesis
    proof (cases "pop q")
      case None
      with Pop Cons show ?thesis by simp
    next
      case (Some r)
      obtain rc e q1 where r: "r = (rc, e, q1)" by (cases r)
      obtain ins1 outs1 q2 where run: "queue_run push pop close cs q1 = (ins1, outs1, q2)"
        by (cases "queue_run push pop close cs q1")
      note p = pop_cases [OF Cons.prems(1) Some [unfolded r]]
      from Cons.IH [of q1] p run show ?thesis
        using Cons.prems(2) Pop Some r by (auto split: option.splits)
    qed
  next
    case Close
    with Cons.IH [OF close_inv [OF Cons.prems(1)], of ins outs q'] Cons.prems(2) show ?thesis
      by (auto simp: close_contents close_capacity close_closed)
  qed
qed simp

text \<open>After the close a consumer drains what is left, in order, and then is told to stop.\<close>

lemma drain_closed:
  assumes "inv q" and "closed q" and "length (contents q) \<le> n"
  shows "\<exists>q'. queue_run push pop close (replicate n Pop) q = ([], contents q, q')
    \<and> contents q' = [] \<and> pop q' = Some (-1, None, q')"
  using assms
proof (induction n arbitrary: q)
  case 0
  then show ?case using pop_end by simp
next
  case (Suc n)
  obtain rc r q1 where p: "pop q = Some (rc, r, q1)"
    using pop_waits [OF Suc.prems(1)] Suc.prems(2) by (cases "pop q") auto
  note c = pop_cases [OF Suc.prems(1) p]
  then have "length (contents q1) \<le> n" using Suc.prems(3) by (cases r) auto
  then obtain q' where "queue_run push pop close (replicate n Pop) q1 = ([], contents q1, q')"
    "contents q' = []" "pop q' = Some (-1, None, q')"
    using Suc.IH [of q1] c Suc.prems(2) by blast
  with p c show ?case by (auto split: option.splits)
qed

end

end
