(* ===== verification/Event_Queue.thy ===== *)
theory Event_Queue
  imports C_Strings Queue_Interface
begin

text \<open>
  \<open>src/event_queue.c\<close> and \<open>include/event_queue.h\<close>: the bounded ring buffer between the
  network threads and the database thread. This theory holds its data, one call of each
  operation from the moment it has the mutex, and the contract the other components rely
  on, as the locales \<open>event_sink\<close> and \<open>event_channel\<close>. A call that finds its wait condition
  true returns \<open>None\<close>: the thread sleeps in \<open>pthread_cond_wait\<close>, which releases the mutex.
  How the threads share the mutex and the condition variables is theory \<open>Queue_Monitor\<close>.
\<close>

section \<open>Data\<close>

definition YUREI_EVENT_PAYLOAD_MAX :: nat where
  "YUREI_EVENT_PAYLOAD_MAX = 4096"

datatype YureiEventKind =
    YUREI_EVENT_KIND_UNKNOWN
  | YUREI_EVENT_KIND_PUMPFUN
  | YUREI_EVENT_KIND_RAYDIUM

text \<open>
  \<open>ev_data\<close> holds the bytes that were written into \<open>data[YUREI_EVENT_PAYLOAD_MAX]\<close>; the
  rest of the array is the zeros of the initial \<open>memset\<close>.
\<close>

record YureiEvent =
  ev_kind :: YureiEventKind
  ev_program_id :: string
  ev_signature :: string
  ev_slot :: u64
  ev_data :: "u8 list"
  ev_data_len :: size_t

definition zero_event :: YureiEvent where
  "zero_event = \<lparr>ev_kind = YUREI_EVENT_KIND_UNKNOWN, ev_program_id = [], ev_signature = [],
     ev_slot = 0, ev_data = [], ev_data_len = 0\<rparr>"

record YureiEventQueue =
  q_buffer :: "YureiEvent list"
  q_capacity :: size_t
  q_head :: size_t
  q_tail :: size_t
  q_size :: size_t
  q_closed :: bool

section \<open>Operations\<close>

text \<open>
  \<open>yurei_queue_init\<close> on a non-null queue: \<open>None\<close> for the return value -1; \<open>calloc_ok\<close> says
  whether \<open>calloc\<close> returned the zeroed buffer.
\<close>

definition yurei_queue_init :: "bool \<Rightarrow> size_t \<Rightarrow> YureiEventQueue option" where
  "yurei_queue_init calloc_ok capacity =
     (if capacity = 0 then None
      else if \<not> calloc_ok then None
      else Some \<lparr>q_buffer = replicate capacity zero_event, q_capacity = capacity,
                 q_head = 0, q_tail = 0, q_size = 0, q_closed = False\<rparr>)"

definition yurei_queue_destroy :: "YureiEventQueue \<Rightarrow> YureiEventQueue" where
  "yurei_queue_destroy queue = queue\<lparr>q_buffer := []\<rparr>"

text \<open>\<open>yurei_queue_push\<close> after its null check, holding the mutex: the return code and the queue.\<close>

definition queue_push :: "YureiEventQueue \<Rightarrow> YureiEvent \<Rightarrow> (int \<times> YureiEventQueue) option" where
  "queue_push queue event =
     (if q_size queue = q_capacity queue \<and> \<not> q_closed queue then None
      else if q_closed queue then Some (-1, queue)
      else Some (0, queue\<lparr>q_buffer := (q_buffer queue)[q_tail queue := event],
                          q_tail := (q_tail queue + 1) mod q_capacity queue,
                          q_size := q_size queue + 1\<rparr>))"

text \<open>\<open>yurei_queue_pop\<close> after its null check: also the event written to \<open>*event\<close>, if any.\<close>

definition queue_pop :: "YureiEventQueue \<Rightarrow> (int \<times> YureiEvent option \<times> YureiEventQueue) option" where
  "queue_pop queue =
     (if q_size queue = 0 \<and> \<not> q_closed queue then None
      else if q_size queue = 0 \<and> q_closed queue then Some (-1, None, queue)
      else Some (0, Some (q_buffer queue ! q_head queue),
                 queue\<lparr>q_head := (q_head queue + 1) mod q_capacity queue,
                       q_size := q_size queue - 1\<rparr>))"

definition queue_close :: "YureiEventQueue \<Rightarrow> YureiEventQueue" where
  "queue_close queue = queue\<lparr>q_closed := True\<rparr>"

text \<open>The exported functions, with their null checks: \<open>None\<close> as an argument is \<open>NULL\<close>.\<close>

definition yurei_queue_push ::
  "YureiEventQueue option \<Rightarrow> YureiEvent option \<Rightarrow> (int \<times> YureiEventQueue option) option" where
  "yurei_queue_push queue event =
     (case (queue, event) of
        (Some q, Some e) \<Rightarrow> map_option (\<lambda>(rc, q'). (rc, Some q')) (queue_push q e)
      | _ \<Rightarrow> Some (-1, queue))"

definition yurei_queue_pop ::
  "YureiEventQueue option \<Rightarrow> bool \<Rightarrow> (int \<times> YureiEvent option \<times> YureiEventQueue option) option" where
  "yurei_queue_pop queue event_given =
     (case queue of
        Some q \<Rightarrow> if event_given
          then map_option (\<lambda>(rc, e, q'). (rc, e, Some q')) (queue_pop q) else Some (-1, None, queue)
      | None \<Rightarrow> Some (-1, None, queue))"

definition yurei_queue_close :: "YureiEventQueue option \<Rightarrow> YureiEventQueue option" where
  "yurei_queue_close queue = map_option queue_close queue"

section \<open>Invariant and abstraction\<close>

definition queue_inv :: "YureiEventQueue \<Rightarrow> bool" where
  "queue_inv q = (0 < q_capacity q \<and> length (q_buffer q) = q_capacity q
     \<and> q_head q < q_capacity q \<and> q_size q \<le> q_capacity q
     \<and> q_tail q = (q_head q + q_size q) mod q_capacity q)"

text \<open>The events in the queue, oldest first.\<close>

definition queue_contents :: "YureiEventQueue \<Rightarrow> YureiEvent list" where
  "queue_contents q = map (\<lambda>i. q_buffer q ! ((q_head q + i) mod q_capacity q)) [0..<q_size q]"

lemma queue_contents_length [simp, queue_simps]: "length (queue_contents q) = q_size q"
  by (simp add: queue_contents_def)

lemma queue_inv_init: "yurei_queue_init ok cap = Some q \<Longrightarrow> queue_inv q"
  by (auto simp: yurei_queue_init_def queue_inv_def split: if_splits)

lemma queue_contents_init: "yurei_queue_init ok cap = Some q \<Longrightarrow> queue_contents q = []"
  by (auto simp: yurei_queue_init_def queue_contents_def split: if_splits)

lemma mod_index_distinct:
  fixes h k n :: nat
  assumes "k < s" and "s < n"
  shows "(h + k) mod n \<noteq> (h + s) mod n"
proof
  assume "(h + k) mod n = (h + s) mod n"
  then have "n dvd (h + s) - (h + k)" using assms(1) mod_eq_dvd_iff_nat [of "h + k" "h + s" n] by simp
  then have "n dvd s - k" by simp
  with assms show False by (auto dest: dvd_imp_le)
qed

lemma queue_push_stored:
  assumes "queue_inv q" and "\<not> q_closed q" and "q_size q < q_capacity q"
  obtains q' where "queue_push q e = Some (0, q')" and "queue_inv q'"
    and "queue_contents q' = queue_contents q @ [e]"
    and "q_capacity q' = q_capacity q" and "\<not> q_closed q'"
proof -
  let ?q' = "q\<lparr>q_buffer := (q_buffer q)[q_tail q := e],
               q_tail := (q_tail q + 1) mod q_capacity q, q_size := q_size q + 1\<rparr>"
  have "(q_buffer q)[q_tail q := e] ! ((q_head q + i) mod q_capacity q)
      = q_buffer q ! ((q_head q + i) mod q_capacity q)" if "i < q_size q" for i
    using assms that mod_index_distinct [of i "q_size q" "q_capacity q" "q_head q"]
    by (simp add: queue_inv_def)
  then have "queue_contents ?q' = queue_contents q @ [e]"
    using assms by (simp add: queue_contents_def queue_inv_def)
  moreover have "queue_inv ?q'"
    using assms by (simp add: queue_inv_def mod_Suc_eq)
  ultimately show thesis
    using assms that [of ?q'] by (simp add: queue_push_def)
qed

lemma queue_pop_taken:
  assumes "queue_inv q" and "0 < q_size q"
  obtains q' e where "queue_pop q = Some (0, Some e, q')" and "queue_inv q'"
    and "queue_contents q = e # queue_contents q'"
    and "q_capacity q' = q_capacity q" and "q_closed q' = q_closed q"
proof -
  let ?q' = "q\<lparr>q_head := (q_head q + 1) mod q_capacity q, q_size := q_size q - 1\<rparr>"
  let ?e = "q_buffer q ! q_head q"
  have "[0..<q_size q] = 0 # map Suc [0..<q_size q - 1]"
    using assms(2) by (simp add: map_Suc_upt flip: upt_conv_Cons)
  then have "queue_contents q = ?e # queue_contents ?q'"
    using assms by (simp add: queue_contents_def queue_inv_def mod_Suc_eq o_def mod_add_left_eq)
  moreover obtain m where m: "q_size q = Suc m" using assms(2) by (cases "q_size q") auto
  have "queue_inv ?q'"
    using assms by (simp add: queue_inv_def m mod_Suc_eq mod_add_left_eq flip: add_Suc)
  ultimately show thesis
    using assms that [of ?e ?q'] by (simp add: queue_pop_def)
qed


section \<open>The contract holds\<close>

interpretation ring: event_channel queue_push queue_contents q_capacity q_closed queue_inv queue_pop queue_close
proof
  fix q e rc q'
  assume inv: "queue_inv q"
  then have b: "q_size q \<le> q_capacity q" by (simp add: queue_inv_def)
  then show "length (queue_contents q) \<le> q_capacity q" by simp
  show "queue_push q e = None \<longleftrightarrow> length (queue_contents q) = q_capacity q \<and> \<not> q_closed q"
    by (auto simp: queue_push_def)
  show "q_closed q \<Longrightarrow> queue_push q e = Some (-1, q)"
    by (simp add: queue_push_def)
  show "rc = 0 \<and> queue_contents q' = queue_contents q @ [e] \<and> q_capacity q' = q_capacity q
      \<and> \<not> q_closed q' \<and> queue_inv q'"
    if "\<not> q_closed q" and "queue_push q e = Some (rc, q')"
  proof -
    from that have "q_size q \<noteq> q_capacity q" by (auto simp: queue_push_def)
    with b have "q_size q < q_capacity q" by simp
    from queue_push_stored [OF inv that(1) this] that(2) show ?thesis by (metis Pair_inject option.inject)
  qed
next
  fix q rc r q'
  assume inv: "queue_inv q"
  have e: "queue_contents q = [] \<longleftrightarrow> q_size q = 0"
    by (simp add: queue_contents_def)
  show "queue_pop q = None \<longleftrightarrow> queue_contents q = [] \<and> \<not> q_closed q"
    by (auto simp: queue_pop_def e)
  show "q_closed q \<Longrightarrow> queue_contents q = [] \<Longrightarrow> queue_pop q = Some (-1, None, q)"
    by (simp add: queue_pop_def e)
  show "rc = 0 \<and> (\<exists>e. r = Some e \<and> queue_contents q = e # queue_contents q')
      \<and> q_capacity q' = q_capacity q \<and> q_closed q' = q_closed q \<and> queue_inv q'"
    if "queue_contents q \<noteq> []" and "queue_pop q = Some (rc, r, q')"
  proof -
    from that(1) e have "0 < q_size q" by simp
    from queue_pop_taken [OF inv this] that(2) show ?thesis by (metis Pair_inject option.inject)
  qed
next
  fix q
  show "queue_contents (queue_close q) = queue_contents q" "q_capacity (queue_close q) = q_capacity q"
    "q_closed (queue_close q)"
    by (simp_all add: queue_contents_def queue_close_def)
  show "queue_inv q \<Longrightarrow> queue_inv (queue_close q)"
    by (simp add: queue_inv_def queue_close_def)
qed

abbreviation event_run ::
  "YureiEvent queue_call list \<Rightarrow> YureiEventQueue \<Rightarrow> YureiEvent list \<times> YureiEvent list \<times> YureiEventQueue" where
  "event_run \<equiv> queue_run queue_push queue_pop queue_close"

section \<open>Properties\<close>

text \<open>
  C4. For every sequence of calls that the threads complete on a freshly initialised queue,
  the events delivered to consumers followed by the events still in the ring buffer are
  exactly the events whose push returned 0, in the order they were pushed; the ring buffer
  never holds more than its capacity.
\<close>

theorem ring_buffer_fifo:
  assumes "yurei_queue_init ok cap = Some q" and "event_run calls q = (accepted, delivered, q')"
  shows "accepted = delivered @ queue_contents q' \<and> length (queue_contents q') \<le> cap \<and> queue_inv q'"
proof -
  have "queue_inv q" "queue_contents q = []" "q_capacity q = cap"
    using assms(1) by (auto simp: queue_inv_init queue_contents_init yurei_queue_init_def split: if_splits)
  then show ?thesis
    using ring.run_fifo [OF _ assms(2)] ring.inv_bound [of q'] by simp
qed

definition sample_event :: "u64 \<Rightarrow> YureiEvent" where
  "sample_event n = zero_event\<lparr>ev_slot := n\<rparr>"

definition sample_queue :: YureiEventQueue where
  "sample_queue = \<lparr>q_buffer = [sample_event 4, sample_event 5, sample_event 3], q_capacity = 3,
     q_head = 2, q_tail = 1, q_size = 2, q_closed = False\<rparr>"

lemma sample_queue_inv: "queue_inv sample_queue"
  by (simp add: queue_inv_def sample_queue_def)

theorem ring_buffer_fifo_witness:
  "event_run [Push (sample_event 1), Push (sample_event 2), Push (sample_event 3), Pop, Push (sample_event 4), Close]
     (the (yurei_queue_init True 2))
   = ([sample_event 1, sample_event 2, sample_event 4], [sample_event 1],
      \<lparr>q_buffer = [sample_event 4, sample_event 2], q_capacity = 2, q_head = 1, q_tail = 1, q_size = 2,
       q_closed = True\<rparr>)
   \<and> queue_inv \<lparr>q_buffer = [sample_event 4, sample_event 2], q_capacity = 2, q_head = 1, q_tail = 1, q_size = 2,
       q_closed = True\<rparr>"
proof -
  have i: "yurei_queue_init True 2 = Some (the (yurei_queue_init True 2))"
    by (simp add: yurei_queue_init_def)
  have r: "event_run [Push (sample_event 1), Push (sample_event 2), Push (sample_event 3), Pop, Push (sample_event 4), Close]
     (the (yurei_queue_init True 2))
   = ([sample_event 1, sample_event 2, sample_event 4], [sample_event 1],
      \<lparr>q_buffer = [sample_event 4, sample_event 2], q_capacity = 2, q_head = 1, q_tail = 1, q_size = 2,
       q_closed = True\<rparr>)"
    by (simp add: yurei_queue_init_def queue_push_def queue_pop_def queue_close_def numeral_2_eq_2)
  from r ring_buffer_fifo [OF i r] show ?thesis by simp
qed

text \<open>
  Closing rejects every later push and loses no event: consumers that go on popping get
  all the events of the buffer in order, and after the last of them the return value -1.
\<close>

theorem closed_queue_drains:
  assumes "queue_inv q"
  shows "queue_push (queue_close q) e = Some (-1, queue_close q)
    \<and> (\<exists>q'. event_run (replicate (q_size q) Pop) (queue_close q) = ([], queue_contents q, q')
           \<and> queue_contents q' = [] \<and> queue_pop q' = Some (-1, None, q'))"
  using assms ring.push_closed [of "queue_close q" e] ring.drain_closed [of "queue_close q" "q_size q"]
  by (simp_all add: ring.close_contents ring.close_inv ring.close_closed)

theorem closed_queue_drains_witness:
  "queue_push (queue_close sample_queue) (sample_event 9) = Some (-1, queue_close sample_queue)
   \<and> (\<exists>q'. event_run (replicate 2 Pop) (queue_close sample_queue) = ([], [sample_event 3, sample_event 4], q')
         \<and> queue_contents q' = [] \<and> queue_pop q' = Some (-1, None, q'))"
  using closed_queue_drains [OF sample_queue_inv, of "sample_event 9"]
  by (simp add: sample_queue_def queue_contents_def numeral_2_eq_2)

text \<open>
  When a call waits: a push exactly on a full open queue, a pop exactly on an empty open
  one; no call waits on a closed queue.
\<close>

theorem queue_waits_iff:
  assumes "queue_inv q"
  shows "(queue_push q e = None \<longleftrightarrow> length (queue_contents q) = q_capacity q \<and> \<not> q_closed q)
    \<and> (queue_pop q = None \<longleftrightarrow> queue_contents q = [] \<and> \<not> q_closed q)"
  using assms ring.push_waits ring.pop_waits by blast

theorem queue_waits_iff_witness:
  "queue_push sample_queue (sample_event 9) \<noteq> None \<and> queue_pop sample_queue \<noteq> None"
  using queue_waits_iff [OF sample_queue_inv] by (simp add: sample_queue_def queue_contents_def)

end
