(* ===== verification/Queue_Monitor.thy ===== *)
theory Queue_Monitor
  imports Event_Queue
begin

text \<open>
  The event queue as the threads share it: \<open>src/event_queue.c\<close> as a monitor. A thread that
  calls \<open>yurei_queue_push\<close> or \<open>yurei_queue_pop\<close> first competes for the mutex (\<open>AtPush\<close>,
  \<open>AtPop\<close>); a step is one stretch of code that holds the mutex, from the lock or the return of
  \<open>pthread_cond_wait\<close> to the unlock or the next wait. \<open>pthread_cond_signal\<close> wakes one of the
  threads that wait on the condition variable, if there is one, which then competes for the
  mutex again; \<open>pthread_cond_broadcast\<close> wakes them all; a wait may also return spuriously.
  The number of threads is arbitrary, and so is the schedule.
\<close>

section \<open>State\<close>

datatype thread_pc =
    Outside
  | AtPush YureiEvent
  | WaitPush YureiEvent
  | AtPop
  | WaitPop

fun at_push :: "thread_pc \<Rightarrow> bool" where
  "at_push (AtPush e) = True"
| "at_push _ = False"

fun wait_push :: "thread_pc \<Rightarrow> bool" where
  "wait_push (WaitPush e) = True"
| "wait_push _ = False"

fun at_pop :: "thread_pc \<Rightarrow> bool" where
  "at_pop AtPop = True"
| "at_pop _ = False"

fun wait_pop :: "thread_pc \<Rightarrow> bool" where
  "wait_pop WaitPop = True"
| "wait_pop _ = False"

fun wake :: "thread_pc \<Rightarrow> thread_pc" where
  "wake (WaitPush e) = AtPush e"
| "wake WaitPop = AtPop"
| "wake pc = pc"

text \<open>\<open>m_accepted\<close> and \<open>m_delivered\<close> record what the completed calls put in and took out.\<close>

record monitor =
  m_queue :: YureiEventQueue
  m_threads :: "thread_pc list"
  m_accepted :: "YureiEvent list"
  m_delivered :: "YureiEvent list"

definition monitor_init :: "YureiEventQueue \<Rightarrow> nat \<Rightarrow> monitor" where
  "monitor_init q n = \<lparr>m_queue = q, m_threads = replicate n Outside, m_accepted = [], m_delivered = []\<rparr>"

text \<open>The possible effects of \<open>pthread_cond_signal\<close> on the threads.\<close>

definition cond_signal :: "(thread_pc \<Rightarrow> bool) \<Rightarrow> thread_pc list \<Rightarrow> thread_pc list list" where
  "cond_signal waiting ts =
     (case filter (\<lambda>j. waiting (ts ! j)) [0..<length ts] of
        [] \<Rightarrow> [ts]
      | js \<Rightarrow> map (\<lambda>j. ts[j := wake (ts ! j)]) js)"

definition cond_broadcast :: "thread_pc list \<Rightarrow> thread_pc list" where
  "cond_broadcast ts = map wake ts"

section \<open>Steps\<close>

inductive monitor_step :: "monitor \<Rightarrow> monitor \<Rightarrow> bool" where
  call_push: "i < length (m_threads s) \<Longrightarrow> m_threads s ! i = Outside \<Longrightarrow>
    monitor_step s (s\<lparr>m_threads := (m_threads s)[i := AtPush e]\<rparr>)"
| call_pop: "i < length (m_threads s) \<Longrightarrow> m_threads s ! i = Outside \<Longrightarrow>
    monitor_step s (s\<lparr>m_threads := (m_threads s)[i := AtPop]\<rparr>)"
| push_wait: "i < length (m_threads s) \<Longrightarrow> m_threads s ! i = AtPush e \<Longrightarrow>
    queue_push (m_queue s) e = None \<Longrightarrow>
    monitor_step s (s\<lparr>m_threads := (m_threads s)[i := WaitPush e]\<rparr>)"
| push_done: "i < length (m_threads s) \<Longrightarrow> m_threads s ! i = AtPush e \<Longrightarrow>
    queue_push (m_queue s) e = Some (0, q) \<Longrightarrow>
    ts \<in> set (cond_signal wait_pop ((m_threads s)[i := Outside])) \<Longrightarrow>
    monitor_step s (s\<lparr>m_queue := q, m_threads := ts, m_accepted := m_accepted s @ [e]\<rparr>)"
| push_rejected: "i < length (m_threads s) \<Longrightarrow> m_threads s ! i = AtPush e \<Longrightarrow>
    queue_push (m_queue s) e = Some (-1, q) \<Longrightarrow>
    monitor_step s (s\<lparr>m_queue := q, m_threads := (m_threads s)[i := Outside]\<rparr>)"
| pop_wait: "i < length (m_threads s) \<Longrightarrow> m_threads s ! i = AtPop \<Longrightarrow>
    queue_pop (m_queue s) = None \<Longrightarrow>
    monitor_step s (s\<lparr>m_threads := (m_threads s)[i := WaitPop]\<rparr>)"
| pop_done: "i < length (m_threads s) \<Longrightarrow> m_threads s ! i = AtPop \<Longrightarrow>
    queue_pop (m_queue s) = Some (0, Some e, q) \<Longrightarrow>
    ts \<in> set (cond_signal wait_push ((m_threads s)[i := Outside])) \<Longrightarrow>
    monitor_step s (s\<lparr>m_queue := q, m_threads := ts, m_delivered := m_delivered s @ [e]\<rparr>)"
| pop_end: "i < length (m_threads s) \<Longrightarrow> m_threads s ! i = AtPop \<Longrightarrow>
    queue_pop (m_queue s) = Some (-1, None, q) \<Longrightarrow>
    monitor_step s (s\<lparr>m_queue := q, m_threads := (m_threads s)[i := Outside]\<rparr>)"
| close: "i < length (m_threads s) \<Longrightarrow> m_threads s ! i = Outside \<Longrightarrow>
    monitor_step s (s\<lparr>m_queue := queue_close (m_queue s), m_threads := cond_broadcast (m_threads s)\<rparr>)"
| spurious: "i < length (m_threads s) \<Longrightarrow> wait_push (m_threads s ! i) \<or> wait_pop (m_threads s ! i) \<Longrightarrow>
    monitor_step s (s\<lparr>m_threads := (m_threads s)[i := wake (m_threads s ! i)]\<rparr>)"

inductive monitor_reachable :: "monitor \<Rightarrow> bool" where
  start: "yurei_queue_init ok cap = Some q \<Longrightarrow> monitor_reachable (monitor_init q n)"
| step: "monitor_reachable s \<Longrightarrow> monitor_step s t \<Longrightarrow> monitor_reachable t"

section \<open>Counting threads\<close>

definition count_where :: "('a \<Rightarrow> bool) \<Rightarrow> 'a list \<Rightarrow> nat" where
  "count_where P xs = length (filter P xs)"

lemma count_where_update:
  "i < length xs \<Longrightarrow> count_where P (xs[i := y]) + of_bool (P (xs ! i)) = count_where P xs + of_bool (P y)"
  unfolding count_where_def
proof (induction xs arbitrary: i)
  case (Cons x xs)
  then show ?case by (cases i) auto
qed simp

lemma count_where_0: "count_where P xs = 0 \<longleftrightarrow> (\<forall>x \<in> set xs. \<not> P x)"
  by (auto simp: count_where_def filter_empty_conv)

text \<open>What a signal does: nothing when nobody waits, else it moves one waiting thread on.\<close>

lemma cond_signal_cases:
  assumes "ts' \<in> set (cond_signal w ts)"
  obtains "count_where w ts = 0" "ts' = ts"
  | j where "j < length ts" "w (ts ! j)" "ts' = ts[j := wake (ts ! j)]"
proof (cases "filter (\<lambda>j. w (ts ! j)) [0..<length ts]")
  case Nil
  then have "count_where w ts = 0"
    by (auto simp: count_where_0 filter_empty_conv in_set_conv_nth)
  with Nil assms that(1) show thesis by (simp add: cond_signal_def)
next
  case (Cons j js)
  from arg_cong [OF Cons, of set] have "set (j # js) = {k. k < length ts \<and> w (ts ! k)}"
    by auto
  with Cons assms that(2) show thesis by (auto simp: cond_signal_def)
qed

section \<open>Invariant\<close>

text \<open>
  A thread sleeps on a condition variable only while the queue is open, and the free slots
  (the stored events) are never more than the threads that are on their way to take them:
  no wakeup is ever missing.
\<close>

definition monitor_inv :: "monitor \<Rightarrow> bool" where
  "monitor_inv s =
     (queue_inv (m_queue s)
      \<and> m_accepted s = m_delivered s @ queue_contents (m_queue s)
      \<and> (0 < count_where wait_push (m_threads s) \<longrightarrow> \<not> q_closed (m_queue s)
           \<and> q_capacity (m_queue s) - q_size (m_queue s) \<le> count_where at_push (m_threads s))
      \<and> (0 < count_where wait_pop (m_threads s) \<longrightarrow> \<not> q_closed (m_queue s)
           \<and> q_size (m_queue s) \<le> count_where at_pop (m_threads s)))"

lemma queue_size_contents: "q_size q = length (queue_contents q)"
  by simp

lemma wait_push_iff: "wait_push pc \<longleftrightarrow> (\<exists>e. pc = WaitPush e)"
  by (cases pc) auto

lemma wait_pop_iff: "wait_pop pc \<longleftrightarrow> pc = WaitPop"
  by (cases pc) auto

lemma monitor_inv_init: "yurei_queue_init ok cap = Some q \<Longrightarrow> monitor_inv (monitor_init q n)"
  by (simp add: monitor_inv_def monitor_init_def queue_inv_init queue_contents_init count_where_def)

text \<open>How one thread's move changes the four counts.\<close>

lemmas move_counts =
  count_where_update [where P = wait_push] count_where_update [where P = at_push]
  count_where_update [where P = wait_pop] count_where_update [where P = at_pop]

lemma queue_push_waits: "queue_inv q \<Longrightarrow> queue_push q e = None \<Longrightarrow> q_size q = q_capacity q \<and> \<not> q_closed q"
  using ring.push_waits [of q e] by simp

lemma queue_pop_waits: "queue_inv q \<Longrightarrow> queue_pop q = None \<Longrightarrow> q_size q = 0 \<and> \<not> q_closed q"
  using ring.pop_waits [of q] by (simp add: queue_contents_def)

lemma queue_push_done:
  assumes "queue_inv q" and "queue_push q e = Some (0, q')"
  shows "\<not> q_closed q \<and> \<not> q_closed q' \<and> queue_inv q' \<and> queue_contents q' = queue_contents q @ [e]
    \<and> q_size q' = q_size q + 1 \<and> q_capacity q' = q_capacity q \<and> q_size q < q_capacity q"
proof -
  from assms have "\<not> q_closed q" "q_size q \<noteq> q_capacity q" by (auto simp: queue_push_def split: if_splits)
  with assms ring.push_open [OF assms(1) this(1) assms(2)] ring.inv_bound [OF assms(1)]
  show ?thesis by (simp add: queue_size_contents del: queue_contents_length)
qed

lemma queue_pop_done:
  assumes "queue_inv q" and "queue_pop q = Some (0, Some e, q')"
  shows "q_closed q' = q_closed q \<and> queue_inv q' \<and> queue_contents q = e # queue_contents q'
    \<and> q_size q = q_size q' + 1 \<and> q_capacity q' = q_capacity q \<and> q_size q \<le> q_capacity q"
proof -
  from ring.pop_cases [OF assms] ring.inv_bound [OF assms(1)] show ?thesis
    by (simp add: queue_size_contents del: queue_contents_length)
qed


text \<open>Moving thread \<open>i\<close> from \<open>pc\<close> to \<open>pc'\<close>, and what a signal adds.\<close>

lemma move_thread:
  assumes "i < length ts" and "ts ! i = pc"
  shows "count_where wait_push (ts[i := pc']) + of_bool (wait_push pc) = count_where wait_push ts + of_bool (wait_push pc')"
    and "count_where at_push (ts[i := pc']) + of_bool (at_push pc) = count_where at_push ts + of_bool (at_push pc')"
    and "count_where wait_pop (ts[i := pc']) + of_bool (wait_pop pc) = count_where wait_pop ts + of_bool (wait_pop pc')"
    and "count_where at_pop (ts[i := pc']) + of_bool (at_pop pc) = count_where at_pop ts + of_bool (at_pop pc')"
  using assms move_counts by metis+

lemma signal_pop_counts:
  assumes "ts' \<in> set (cond_signal wait_pop ts)"
  shows "count_where wait_push ts' = count_where wait_push ts \<and> count_where at_push ts' = count_where at_push ts
    \<and> count_where wait_pop ts' = count_where wait_pop ts - 1
    \<and> count_where at_pop ts' = count_where at_pop ts + of_bool (0 < count_where wait_pop ts)"
  using assms
proof (cases rule: cond_signal_cases)
  case (2 j)
  then have "ts ! j = WaitPop" by (simp add: wait_pop_iff)
  with move_thread [OF 2(1) this, of AtPop] 2(3) show ?thesis by (auto split: if_splits)
qed simp

lemma signal_push_counts:
  assumes "ts' \<in> set (cond_signal wait_push ts)"
  shows "count_where wait_pop ts' = count_where wait_pop ts \<and> count_where at_pop ts' = count_where at_pop ts
    \<and> count_where wait_push ts' = count_where wait_push ts - 1
    \<and> count_where at_push ts' = count_where at_push ts + of_bool (0 < count_where wait_push ts)"
  using assms
proof (cases rule: cond_signal_cases)
  case (2 j)
  then obtain e where "ts ! j = WaitPush e" by (auto simp: wait_push_iff)
  with move_thread [OF 2(1) this, of "AtPush e"] 2(3) show ?thesis by (auto split: if_splits)
qed simp

lemma wake_not_waiting: "\<not> wait_push (wake pc)" "\<not> wait_pop (wake pc)"
  by (cases pc; simp)+

lemma broadcast_counts: "count_where wait_push (cond_broadcast ts) = 0" "count_where wait_pop (cond_broadcast ts) = 0"
  by (simp_all add: cond_broadcast_def count_where_0 wake_not_waiting)

text \<open>Every step keeps the invariant.\<close>

lemma monitor_inv_move:
  assumes "monitor_inv s" and "i < length (m_threads s)" and "m_threads s ! i = pc"
    and "wait_push pc' \<Longrightarrow> \<not> q_closed (m_queue s) \<and> q_size (m_queue s) = q_capacity (m_queue s)"
    and "wait_pop pc' \<Longrightarrow> \<not> q_closed (m_queue s) \<and> q_size (m_queue s) = 0"
    and "at_push pc \<Longrightarrow> wait_push pc' \<or> q_closed (m_queue s)"
    and "at_pop pc \<Longrightarrow> wait_pop pc' \<or> q_closed (m_queue s)"
  shows "monitor_inv (s\<lparr>m_threads := (m_threads s)[i := pc']\<rparr>)"
  using assms(1) move_thread [OF assms(2,3), of pc'] assms(4-7)
  by (cases pc; cases pc') (auto simp: monitor_inv_def)

lemma monitor_inv_push_done:
  assumes "monitor_inv s" and "i < length (m_threads s)" and "m_threads s ! i = AtPush e"
    and "queue_push (m_queue s) e = Some (0, q)"
    and "ts \<in> set (cond_signal wait_pop ((m_threads s)[i := Outside]))"
  shows "monitor_inv (s\<lparr>m_queue := q, m_threads := ts, m_accepted := m_accepted s @ [e]\<rparr>)"
proof -
  have "queue_inv (m_queue s)" using assms(1) by (simp add: monitor_inv_def)
  note q = queue_push_done [OF this assms(4)]
  note ts = signal_pop_counts [OF assms(5)] move_thread [OF assms(2,3), of Outside]
  from assms(1) q ts show ?thesis
    by (cases "count_where wait_pop (m_threads s)") (simp_all add: monitor_inv_def, linarith+)
qed

lemma monitor_inv_pop_done:
  assumes "monitor_inv s" and "i < length (m_threads s)" and "m_threads s ! i = AtPop"
    and "queue_pop (m_queue s) = Some (0, Some e, q)"
    and "ts \<in> set (cond_signal wait_push ((m_threads s)[i := Outside]))"
  shows "monitor_inv (s\<lparr>m_queue := q, m_threads := ts, m_delivered := m_delivered s @ [e]\<rparr>)"
proof -
  have "queue_inv (m_queue s)" using assms(1) by (simp add: monitor_inv_def)
  note q = queue_pop_done [OF this assms(4)]
  note ts = signal_push_counts [OF assms(5)] move_thread [OF assms(2,3), of Outside]
  from assms(1) q ts show ?thesis
    by (cases "count_where wait_push (m_threads s)") (simp_all add: monitor_inv_def, linarith+)
qed

lemma monitor_inv_step:
  assumes "monitor_step s t" and "monitor_inv s"
  shows "monitor_inv t"
  using assms
proof (induction rule: monitor_step.induct)
  case (push_wait i s e)
  then show ?case
    using queue_push_waits [of "m_queue s" e] by (intro monitor_inv_move) (auto simp: monitor_inv_def)
next
  case (pop_wait i s)
  then show ?case
    using queue_pop_waits [of "m_queue s"] by (intro monitor_inv_move) (auto simp: monitor_inv_def)
next
  case (push_rejected i s e q)
  then have "q = m_queue s" "q_closed (m_queue s)" by (auto simp: queue_push_def split: if_splits)
  then show ?case using push_rejected monitor_inv_move [of s i "AtPush e" Outside] by simp
next
  case (pop_end i s q)
  then have "q = m_queue s" "q_closed (m_queue s)" by (auto simp: queue_pop_def split: if_splits)
  then show ?case using pop_end monitor_inv_move [of s i AtPop Outside] by simp
next
  case (close i s)
  then show ?case
    by (simp add: monitor_inv_def broadcast_counts ring.close_inv ring.close_contents)
next
  case (spurious i s)
  then show ?case
    by (intro monitor_inv_move) (auto simp: wake_not_waiting wait_push_iff wait_pop_iff)
qed (auto intro: monitor_inv_move monitor_inv_push_done monitor_inv_pop_done)

lemma monitor_reachable_inv: "monitor_reachable s \<Longrightarrow> monitor_inv s"
  by (induction rule: monitor_reachable.induct) (auto intro: monitor_inv_init monitor_inv_step)


section \<open>Properties of every schedule\<close>

text \<open>
  A run for the witnesses: a queue of one slot, threads 0 and 1 push, thread 1 finds the queue
  full and sleeps; then the queue is closed.
\<close>

definition one_slot :: YureiEventQueue where
  "one_slot = \<lparr>q_buffer = [zero_event], q_capacity = 1, q_head = 0, q_tail = 0, q_size = 0, q_closed = False\<rparr>"

definition full_slot :: YureiEventQueue where
  "full_slot = \<lparr>q_buffer = [sample_event 7], q_capacity = 1, q_head = 0, q_tail = 0, q_size = 1, q_closed = False\<rparr>"

definition sleeping_state :: monitor where
  "sleeping_state = \<lparr>m_queue = full_slot, m_threads = [Outside, WaitPush (sample_event 8)],
     m_accepted = [sample_event 7], m_delivered = []\<rparr>"

lemmas run_defs = monitor_init_def one_slot_def full_slot_def sleeping_state_def
  queue_push_def queue_pop_def cond_signal_def cond_broadcast_def queue_close_def

lemma sleeping_state_reachable: "monitor_reachable sleeping_state"
proof -
  let ?s0 = "monitor_init one_slot 2"
  let ?s1 = "?s0\<lparr>m_threads := [AtPush (sample_event 7), Outside]\<rparr>"
  let ?s2 = "\<lparr>m_queue = full_slot, m_threads = [Outside, Outside], m_accepted = [sample_event 7], m_delivered = []\<rparr>"
  let ?s3 = "?s2\<lparr>m_threads := [Outside, AtPush (sample_event 8)]\<rparr>"
  have r0: "monitor_reachable ?s0"
    by (rule monitor_reachable.start [of True 1]) (simp add: yurei_queue_init_def one_slot_def)
  have "monitor_step ?s0 ?s1"
    using monitor_step.call_push [of 0 ?s0 "sample_event 7"] by (simp add: monitor_init_def numeral_2_eq_2)
  with r0 have r1: "monitor_reachable ?s1" by (rule monitor_reachable.step)
  have "monitor_step ?s1 ?s2"
    using monitor_step.push_done [of 0 ?s1 "sample_event 7" full_slot "[Outside, Outside]"]
    by (simp add: run_defs)
  with r1 have r2: "monitor_reachable ?s2" by (rule monitor_reachable.step)
  have "monitor_step ?s2 ?s3" using monitor_step.call_push [of 1 ?s2 "sample_event 8"] by simp
  with r2 have r3: "monitor_reachable ?s3" by (rule monitor_reachable.step)
  have "monitor_step ?s3 sleeping_state"
    using monitor_step.push_wait [of 1 ?s3 "sample_event 8"] by (simp add: run_defs)
  with r3 show ?thesis by (rule monitor_reachable.step)
qed

text \<open>
  C23. In every reachable state of any number of producers and consumers, whatever the
  schedule, what was delivered followed by what is stored is what was accepted, in order.
\<close>

theorem monitor_fifo:
  "monitor_reachable s \<Longrightarrow>
     m_accepted s = m_delivered s @ queue_contents (m_queue s)
     \<and> length (queue_contents (m_queue s)) \<le> q_capacity (m_queue s)"
  using monitor_reachable_inv [of s] ring.inv_bound [of "m_queue s"] by (auto simp: monitor_inv_def)

theorem monitor_fifo_witness:
  "m_accepted sleeping_state = m_delivered sleeping_state @ [sample_event 7]"
  using monitor_fifo [OF sleeping_state_reachable] by (simp add: sleeping_state_def full_slot_def queue_contents_def)

lemma count_where_pos: "i < length xs \<Longrightarrow> P (xs ! i) \<Longrightarrow> 0 < count_where P xs"
  using count_where_0 [of P xs] nth_mem [of i xs] by (auto simp: neq0_conv [symmetric] simp del: neq0_conv)

lemma count_where_posD: "0 < count_where P xs \<Longrightarrow> \<exists>i. i < length xs \<and> P (xs ! i)"
  using count_where_0 [of P xs] by (auto simp: in_set_conv_nth)

text \<open>
  C5. No lost wakeup: a thread sleeps in a push only while the queue is open and either the
  queue is full or another thread is already on its way to push; symmetrically for a pop. So
  no thread sleeps while an action it waits for has happened and nobody is awake to use it.
\<close>

theorem no_lost_wakeup:
  assumes "monitor_reachable s" and "i < length (m_threads s)"
  shows "(wait_push (m_threads s ! i) \<longrightarrow> \<not> q_closed (m_queue s)
            \<and> (q_size (m_queue s) = q_capacity (m_queue s) \<or> (\<exists>j < length (m_threads s). at_push (m_threads s ! j))))
       \<and> (wait_pop (m_threads s ! i) \<longrightarrow> \<not> q_closed (m_queue s)
            \<and> (q_size (m_queue s) = 0 \<or> (\<exists>j < length (m_threads s). at_pop (m_threads s ! j))))"
proof -
  have inv: "monitor_inv s" using assms(1) by (rule monitor_reachable_inv)
  then have b: "q_size (m_queue s) \<le> q_capacity (m_queue s)" by (simp add: monitor_inv_def queue_inv_def)
  have push: "\<not> q_closed (m_queue s) \<and> (q_size (m_queue s) = q_capacity (m_queue s) \<or> 0 < count_where at_push (m_threads s))"
    if "wait_push (m_threads s ! i)"
    using inv b count_where_pos [OF assms(2), of wait_push] that by (auto simp: monitor_inv_def)
  have pop: "\<not> q_closed (m_queue s) \<and> (q_size (m_queue s) = 0 \<or> 0 < count_where at_pop (m_threads s))"
    if "wait_pop (m_threads s ! i)"
    using inv count_where_pos [OF assms(2), of wait_pop] that by (auto simp: monitor_inv_def)
  from push pop show ?thesis by (blast dest: count_where_posD)
qed

theorem no_lost_wakeup_witness:
  "wait_push (m_threads sleeping_state ! 1) \<and> q_size (m_queue sleeping_state) = q_capacity (m_queue sleeping_state)"
  using no_lost_wakeup [OF sleeping_state_reachable, of 1]
  by (simp add: sleeping_state_def full_slot_def less_Suc_eq numeral_2_eq_2)

text \<open>
  C8. No deadlock inside the queue: when no thread is awake in a queue operation, the threads
  that sleep there are all producers facing a full queue, or all consumers facing an empty
  one; the two kinds never sleep together.
\<close>

theorem monitor_no_deadlock:
  assumes "monitor_reachable s"
    and "list_all (\<lambda>pc. \<not> at_push pc \<and> \<not> at_pop pc) (m_threads s)"
    and "0 < count_where (\<lambda>pc. wait_push pc \<or> wait_pop pc) (m_threads s)"
  shows "(list_all (\<lambda>pc. \<not> wait_pop pc) (m_threads s) \<and> q_size (m_queue s) = q_capacity (m_queue s)
            \<and> 0 < q_size (m_queue s))
       \<or> (list_all (\<lambda>pc. \<not> wait_push pc) (m_threads s) \<and> q_size (m_queue s) = 0)"
proof -
  have inv: "monitor_inv s" using assms(1) by (rule monitor_reachable_inv)
  then have q: "q_size (m_queue s) \<le> q_capacity (m_queue s)" "0 < q_capacity (m_queue s)"
    by (simp_all add: monitor_inv_def queue_inv_def)
  have "count_where at_push (m_threads s) = 0" "count_where at_pop (m_threads s) = 0"
    using assms(2) by (auto simp: count_where_0 list_all_iff)
  with inv have
    "0 < count_where wait_push (m_threads s) \<longrightarrow> q_capacity (m_queue s) - q_size (m_queue s) = 0"
    "0 < count_where wait_pop (m_threads s) \<longrightarrow> q_size (m_queue s) = 0"
    by (simp_all add: monitor_inv_def)
  moreover from assms(3) have "0 < count_where wait_push (m_threads s) \<or> 0 < count_where wait_pop (m_threads s)"
    by (auto simp: neq0_conv [symmetric] count_where_0 simp del: neq0_conv)
  moreover have "list_all (\<lambda>pc. \<not> P pc) (m_threads s)" if "\<not> 0 < count_where P (m_threads s)" for P
    using that count_where_0 [of P "m_threads s"] by (simp add: list_all_iff)
  ultimately show ?thesis using q
    by (cases "0 < count_where wait_push (m_threads s)"; cases "0 < count_where wait_pop (m_threads s)") simp_all
qed

theorem monitor_no_deadlock_witness:
  "list_all (\<lambda>pc. \<not> wait_pop pc) (m_threads sleeping_state)
     \<and> q_size (m_queue sleeping_state) = q_capacity (m_queue sleeping_state)"
  using monitor_no_deadlock [OF sleeping_state_reachable]
  by (simp add: sleeping_state_def full_slot_def count_where_def)

lemma signal_keeps_outside:
  assumes "ts' \<in> set (cond_signal w ts)" and "w = wait_push \<or> w = wait_pop" and "ts ! k = Outside"
  shows "ts' ! k = Outside"
  using assms(1)
proof (cases rule: cond_signal_cases)
  case (2 j)
  with assms(2,3) show ?thesis by (cases "j = k") auto
qed (simp add: assms(3))

lemma cond_signal_nonempty: "\<exists>ts'. ts' \<in> set (cond_signal w ts)"
  by (cases "filter (\<lambda>j. w (ts ! j)) [0..<length ts]") (auto simp: cond_signal_def)

text \<open>
  C19. Once the queue is closed nobody sleeps in it, and every thread that is inside a push or
  a pop can leave it with its next step: no call blocks after the close.
\<close>

theorem closed_queue_releases:
  assumes "monitor_reachable s" and "q_closed (m_queue s)" and "k < length (m_threads s)"
  shows "\<not> wait_push (m_threads s ! k) \<and> \<not> wait_pop (m_threads s ! k)
    \<and> (m_threads s ! k \<noteq> Outside \<longrightarrow> (\<exists>t. monitor_step s t \<and> m_threads t ! k = Outside))"
proof -
  have inv: "monitor_inv s" using assms(1) by (rule monitor_reachable_inv)
  have w: "\<not> wait_push (m_threads s ! k)" "\<not> wait_pop (m_threads s ! k)"
    using inv assms(2) count_where_pos [OF assms(3), of wait_push] count_where_pos [OF assms(3), of wait_pop]
    by (auto simp: monitor_inv_def)
  have "\<exists>t. monitor_step s t \<and> m_threads t ! k = Outside" if "m_threads s ! k = AtPush e" for e
    using monitor_step.push_rejected [OF assms(3) that, of "m_queue s"] assms(2,3)
    by (force simp: queue_push_def)
  moreover have "\<exists>t. monitor_step s t \<and> m_threads t ! k = Outside" if at: "m_threads s ! k = AtPop"
  proof (cases "q_size (m_queue s) = 0")
    case True
    then show ?thesis
      using monitor_step.pop_end [OF assms(3) at, of "m_queue s"] assms(2,3) by (force simp: queue_pop_def)
  next
    case False
    then obtain e q where p: "queue_pop (m_queue s) = Some (0, Some e, q)" by (auto simp: queue_pop_def)
    obtain ts where ts: "ts \<in> set (cond_signal wait_push ((m_threads s)[k := Outside]))"
      using cond_signal_nonempty by blast
    have "ts ! k = Outside" using signal_keeps_outside [OF ts] assms(3) by simp
    with monitor_step.pop_done [OF assms(3) at p ts] show ?thesis by force
  qed
  ultimately show ?thesis using w by (cases "m_threads s ! k") auto
qed

theorem closed_queue_releases_witness:
  "\<exists>s t. monitor_reachable s \<and> m_threads s = [Outside, AtPush (sample_event 8)]
     \<and> monitor_step s t \<and> m_threads t ! 1 = Outside"
proof -
  let ?s = "sleeping_state\<lparr>m_queue := queue_close full_slot, m_threads := [Outside, AtPush (sample_event 8)]\<rparr>"
  have "monitor_step sleeping_state ?s"
    using monitor_step.close [of 0 sleeping_state] by (simp add: run_defs)
  with sleeping_state_reachable have "monitor_reachable ?s" by (rule monitor_reachable.step)
  moreover from closed_queue_releases [OF this, of 1]
  obtain t where "monitor_step ?s t" "m_threads t ! 1 = Outside"
    by (auto simp: queue_close_def)
  ultimately show ?thesis by (intro exI [of _ ?s] exI [of _ t]) simp
qed

end
