(* ===== verification/Base64.thy ===== *)
theory Base64
  imports C_Strings Event_Queue
begin

text \<open>
  The base64 decoder of \<open>src/parser.c\<close>: the 256-entry table that \<open>init_base64_table\<close>
  fills and the loop of \<open>decode_base64\<close>, with its accumulator \<open>val\<close> kept at the width of
  an \<open>int\<close>. Shifting bits out of a signed \<open>int\<close> is undefined in ISO C; the model follows
  the compilers the build supports, where the value wraps. The lemmas show that the wrap
  never matters, and compare the loop with RFC 4648.
\<close>

unbundle bit_operations_syntax

section \<open>The table\<close>

text \<open>Entries are \<open>int8_t\<close>; \<open>- 1\<close> marks a character outside the alphabet.\<close>

definition base64_alphabet :: string where
  "base64_alphabet = ''ABCDEFGHIJKLMNOPQRSTUVWXYZabcdefghijklmnopqrstuvwxyz0123456789+/''"

fun fill_table :: "nat \<Rightarrow> string \<Rightarrow> 8 word list \<Rightarrow> 8 word list" where
  "fill_table i [] table = table"
| "fill_table i (c # cs) table = fill_table (Suc i) cs (table[of_char c := of_nat i])"

definition init_base64_table :: "8 word list" where
  "init_base64_table = (fill_table 0 base64_alphabet (replicate 256 (- 1)))[of_char (CHR ''='') := 0]"

section \<open>The loop\<close>

text \<open>
  \<open>out\<close> holds the bytes written so far, \<open>output[0 .. out_index - 1]\<close>. \<open>None\<close> is the return
  value false.
\<close>

fun decode_loop :: "8 word list \<Rightarrow> string \<Rightarrow> u32 \<Rightarrow> int \<Rightarrow> u8 list \<Rightarrow> u8 list option" where
  "decode_loop table [] val bits out = Some out"
| "decode_loop table (c # s) val bits out =
     (if isspace c then decode_loop table s val bits out
      else let decoded = table ! of_char c in
        if decoded = - 1 then Some out
        else let val = push_bit 6 val + scast decoded; bits = bits + 6 in
          if 0 \<le> bits then
            if YUREI_EVENT_PAYLOAD_MAX \<le> length out then None
            else decode_loop table s val (bits - 8) (out @ [ucast (signed_drop_bit (nat bits) val AND 0xFF)])
          else decode_loop table s val bits out)"

definition decode_base64 :: "string \<Rightarrow> u8 list option" where
  "decode_base64 input = decode_loop init_base64_table input 0 (- 8) []"

section \<open>What the table holds\<close>

text \<open>The alphabet of RFC 4648, by ranges of character codes; padding counts as zero bits.\<close>

definition base64_digit :: "char \<Rightarrow> nat option" where
  "base64_digit c =
     (let n = (of_char c :: nat) in
      if 65 \<le> n \<and> n \<le> 90 then Some (n - 65)
      else if 97 \<le> n \<and> n \<le> 122 then Some (n - 71)
      else if 48 \<le> n \<and> n \<le> 57 then Some (n + 4)
      else if n = 43 then Some 62
      else if n = 47 then Some 63
      else if n = 61 then Some 0
      else None)"

fun last_index :: "nat \<Rightarrow> string \<Rightarrow> char \<Rightarrow> nat option" where
  "last_index i [] c = None"
| "last_index i (d # cs) c =
     (case last_index (Suc i) cs c of Some k \<Rightarrow> Some k | None \<Rightarrow> if d = c then Some i else None)"

lemma fill_table_length [simp]: "length (fill_table i cs t) = length t"
  by (induction i cs t rule: fill_table.induct) auto

lemma of_char_eq: "((of_char c :: nat) = of_char d) = (c = d)"
  by (metis char_of_char)

lemma fill_table_nth:
  "length t = 256 \<Longrightarrow>
   fill_table i cs t ! of_char c = (case last_index i cs c of None \<Rightarrow> t ! of_char c | Some k \<Rightarrow> of_nat k)"
  by (induction i cs t rule: fill_table.induct) (auto simp: of_char_eq nth_list_update split: option.splits)

lemma alphabet_digits:
  "\<forall>c. (if c = CHR ''='' then Some 0 else last_index 0 base64_alphabet c) = base64_digit c"
  by code_simp

lemma table_lookup:
  "init_base64_table ! of_char c = (case base64_digit c of None \<Rightarrow> - 1 | Some d \<Rightarrow> of_nat d)"
  using alphabet_digits [rule_format, of c, symmetric] of_char_eq [of "CHR ''=''" c, simplified]
  by (auto simp: init_base64_table_def nth_list_update fill_table_nth split: option.splits)

lemma digit_less: "base64_digit c = Some d \<Longrightarrow> d < 64"
  by (auto simp: base64_digit_def Let_def split: if_splits)

lemma digit_words:
  "list_all (\<lambda>d. (of_nat d :: 8 word) \<noteq> - 1 \<and> scast (of_nat d :: 8 word) = (of_nat d :: u32)) [0..<64]"
  by code_simp

lemma table_entry_cases:
  assumes "base64_digit c = Some d"
  shows "init_base64_table ! of_char c \<noteq> - 1" and "(scast (init_base64_table ! of_char c) :: u32) = of_nat d"
  using digit_words digit_less [OF assms] by (simp_all add: table_lookup assms list_all_iff del: upt_rec_numeral)

section \<open>The digits of the input\<close>

text \<open>The characters the loop uses: white space is skipped, the first foreign one ends it.\<close>

definition base64_digits :: "string \<Rightarrow> nat list" where
  "base64_digits s =
     map (\<lambda>c. the (base64_digit c)) (takeWhile (\<lambda>c. base64_digit c \<noteq> None) (filter (\<lambda>c. \<not> isspace c) s))"

lemma base64_digits_simps [simp]:
  "base64_digits [] = []"
  "base64_digits (c # s) =
     (if isspace c then base64_digits s
      else case base64_digit c of None \<Rightarrow> [] | Some d \<Rightarrow> d # base64_digits s)"
  by (auto simp: base64_digits_def split: option.splits)

lemma base64_digits_less: "d \<in> set (base64_digits s) \<Longrightarrow> d < 64"
  by (induction s) (auto split: if_splits option.splits dest: digit_less digit_less [OF sym])

text \<open>The loop over digits, without the bound on the output.\<close>

definition low_byte :: "u32 \<Rightarrow> int \<Rightarrow> u8" where
  "low_byte val bits = ucast (signed_drop_bit (nat bits) val AND 0xFF)"

fun digit_bytes :: "nat list \<Rightarrow> u32 \<Rightarrow> int \<Rightarrow> u8 list" where
  "digit_bytes [] val bits = []"
| "digit_bytes (d # ds) val bits =
     (let val = push_bit 6 val + of_nat d; bits = bits + 6 in
      if 0 \<le> bits then low_byte val bits # digit_bytes ds val (bits - 8) else digit_bytes ds val bits)"

lemma decode_loop_digits:
  assumes "length out \<le> YUREI_EVENT_PAYLOAD_MAX"
  shows "decode_loop init_base64_table s val bits out =
    (let bs = digit_bytes (base64_digits s) val bits in
     if length (out @ bs) \<le> YUREI_EVENT_PAYLOAD_MAX then Some (out @ bs) else None)"
  using assms
proof (induction s arbitrary: val bits out)
  case (Cons c s)
  show ?case
  proof (cases "base64_digit c")
    case None
    then show ?thesis using Cons by (simp add: table_lookup)
  next
    case (Some d)
    note t = table_entry_cases [OF Some]
    show ?thesis
    proof (cases "isspace c \<or> bits + 6 < 0 \<or> YUREI_EVENT_PAYLOAD_MAX \<le> length out")
      case True
      then show ?thesis using Cons Some t by (auto simp: Let_def)
    next
      case False
      then show ?thesis
        using Cons.IH [of "out @ [low_byte (push_bit 6 val + of_nat d) (bits + 6)]"] Some t
        by (simp add: Let_def low_byte_def)
    qed
  qed
qed simp

section \<open>Equivalence with RFC 4648\<close>

text \<open>Four digits make three bytes; an incomplete group makes one byte less than it has digits.\<close>

fun decode_groups :: "nat list \<Rightarrow> nat list" where
  "decode_groups (a # b # c # d # ds) =
     (4 * a + b div 16) # (16 * (b mod 16) + c div 4) # (64 * (c mod 4) + d) # decode_groups ds"
| "decode_groups [a, b, c] = [4 * a + b div 16, 16 * (b mod 16) + c div 4]"
| "decode_groups [a, b] = [4 * a + b div 16]"
| "decode_groups _ = []"

lemma low_byte_ucast:
  assumes "n \<le> 24"
  shows "low_byte val (int n) = ucast (drop_bit n val)"
proof -
  have m: "(0xFF :: 32 word) = mask 8" by (simp add: mask_eq_exp_minus_1)
  show ?thesis unfolding low_byte_def m using assms by (intro bit_word_eqI) (auto simp: bit_simps)
qed

lemma low_byte_unat: "n \<le> 24 \<Longrightarrow> unat (low_byte val (int n)) = (unat val div 2 ^ n) mod 256"
  by (simp add: low_byte_ucast unsigned_ucast_eq take_bit_eq_mod unat_drop_bit_eq) (simp add: drop_bit_eq_div)

lemma unat_shift_in: "unat (push_bit 6 val + of_nat d :: u32) = (64 * unat val + d) mod 2 ^ 32"
  by (simp add: unat_word_ariths push_bit_eq_mult unat_of_nat mod_simps mult.commute)

lemma byte_field: "n \<le> 24 \<Longrightarrow> (x mod 2 ^ 32) div 2 ^ n mod 256 = x div 2 ^ n mod (256 :: nat)"
proof -
  assume "n \<le> 24"
  then have "take_bit 8 (drop_bit n (take_bit 32 x)) = take_bit 8 (drop_bit n x)"
    by (intro bit_eqI) (auto simp: bit_simps)
  then show ?thesis by (simp add: take_bit_eq_mod drop_bit_eq_div)
qed

text \<open>The byte that two digits end, whatever was accumulated before them.\<close>

lemma low_byte_two_digits:
  assumes "n \<le> 4"
  shows "unat (low_byte (push_bit 6 (push_bit 6 val + of_nat a) + of_nat b) (int n)) = (64 * a + b) div 2 ^ n mod 256"
proof -
  have "(64 * ((64 * unat val + a) mod 2 ^ 32) + b) mod 2 ^ 32 = (64 * (64 * unat val + a) + b) mod (2 ^ 32 :: nat)"
    by (metis mod_add_left_eq mod_mult_right_eq)
  then have "unat (push_bit 6 (push_bit 6 val + of_nat a) + of_nat b) = (4096 * unat val + 64 * a + b) mod 2 ^ 32"
    unfolding unat_shift_in by (simp add: algebra_simps)
  moreover have "(4096 * unat val + 64 * a + b) div 2 ^ n mod 256 = (64 * a + b) div 2 ^ n mod 256"
  proof -
    have e: "4096 * unat val = (256 * (2 ^ (4 - n) * unat val)) * 2 ^ n"
      using assms power_add [of "2::nat" "4 - n" n] by simp
    show ?thesis unfolding e add.assoc by (subst div_mult_self3) simp_all
  qed
  ultimately show ?thesis
    using assms byte_field [of n "4096 * unat val + 64 * a + b"] by (simp add: low_byte_unat)
qed

lemmas low_byte_positions =
  low_byte_two_digits [of 4, simplified] low_byte_two_digits [of 2, simplified] low_byte_two_digits [of 0, simplified]

lemma mod_parts: "r < m \<Longrightarrow> (m * b + r) mod (m * k) = m * (b mod k) + (r :: nat)"
  by (simp add: mod_mult2_eq)

lemma group_arith:
  "b < 64 \<Longrightarrow> a < 64 \<Longrightarrow> (64 * a + b) div 16 mod 256 = 4 * a + b div (16 :: nat)"
  "c < 64 \<Longrightarrow> (64 * b + c) div 4 mod 256 = 16 * (b mod 16) + c div (4 :: nat)"
  "d < 64 \<Longrightarrow> (64 * c + d) mod 256 = 64 * (c mod 4) + (d :: nat)"
proof -
  have d16: "(64 * a + b) div 16 = 4 * a + b div 16" by presburger
  have d4: "(64 * b + c) div 4 = 16 * b + c div 4" by presburger
  show "b < 64 \<Longrightarrow> a < 64 \<Longrightarrow> (64 * a + b) div 16 mod 256 = 4 * a + b div 16"
    unfolding d16 by (rule mod_less) linarith
  show "c < 64 \<Longrightarrow> (64 * b + c) div 4 mod 256 = 16 * (b mod 16) + c div 4"
    unfolding d4 using mod_parts [of "c div 4" 16 b 16] by simp
  show "d < 64 \<Longrightarrow> (64 * c + d) mod 256 = 64 * (c mod 4) + d"
    using mod_parts [of d 64 c 4] by simp
qed

lemma digit_bytes_groups:
  "list_all (\<lambda>d. d < 64) ds \<Longrightarrow> map unat (digit_bytes ds val (- 8)) = decode_groups ds"
proof (induction ds arbitrary: val rule: decode_groups.induct)
  case (1 a b c d ds)
  then show ?case by (simp add: Let_def low_byte_positions group_arith)
qed (simp_all add: Let_def low_byte_positions group_arith)

text \<open>The encoder of RFC 4648, section 4, and its variant without padding.\<close>

definition alpha :: "nat \<Rightarrow> char" where
  "alpha d = base64_alphabet ! d"

fun base64_encode :: "nat list \<Rightarrow> string" where
  "base64_encode (a # b # c # bs) =
     alpha (a div 4) # alpha (16 * (a mod 4) + b div 16) # alpha (4 * (b mod 16) + c div 64) # alpha (c mod 64)
       # base64_encode bs"
| "base64_encode [a, b] = [alpha (a div 4), alpha (16 * (a mod 4) + b div 16), alpha (4 * (b mod 16)), CHR ''='']"
| "base64_encode [a] = [alpha (a div 4), alpha (16 * (a mod 4)), CHR ''='', CHR ''='']"
| "base64_encode [] = []"

definition base64_encode_unpadded :: "nat list \<Rightarrow> string" where
  "base64_encode_unpadded bs = filter (\<lambda>c. c \<noteq> CHR ''='') (base64_encode bs)"

lemma alpha_chars:
  "map base64_digit base64_alphabet = map Some [0..<64]"
  "list_all (\<lambda>c. \<not> isspace c \<and> c \<noteq> CHR ''='') base64_alphabet"
  by code_simp+

lemma alphabet_length: "length base64_alphabet = 64"
  by (simp add: base64_alphabet_def)

lemma alpha_simps [simp]:
  assumes "d < 64"
  shows "base64_digit (alpha d) = Some d" "isspace (alpha d) = False" "(alpha d = CHR ''='') = False"
proof -
  have "map base64_digit base64_alphabet ! d = map Some [0..<64] ! d" by (simp only: alpha_chars)
  then show "base64_digit (alpha d) = Some d"
    using assms alphabet_length by (simp add: alpha_def del: upt_rec_numeral)
  have "alpha d \<in> set base64_alphabet" using assms alphabet_length by (simp add: alpha_def)
  with alpha_chars(2) show "isspace (alpha d) = False" "(alpha d = CHR ''='') = False"
    by (simp_all add: list_all_iff)
qed

lemma padding_char [simp]: "base64_digit (CHR ''='') = Some 0" "\<not> isspace (CHR ''='')"
  by code_simp+

lemma sextet_less:
  "a < 256 \<Longrightarrow> a div 4 < (64 :: nat)"
  "b < 256 \<Longrightarrow> 16 * (a mod 4) + b div 16 < (64 :: nat)"
  "c < 256 \<Longrightarrow> 4 * (b mod 16) + c div 64 < (64 :: nat)"
  "16 * (a mod 4) < (64 :: nat)" "4 * (b mod 16) < (64 :: nat)"
proof -
  have "a mod 4 < 4" "b mod 16 < 16" by simp_all
  moreover have "b < 256 \<Longrightarrow> b div 16 < 16" "c < 256 \<Longrightarrow> c div 64 < 4" "a < 256 \<Longrightarrow> a div 4 < 64"
    by (simp_all add: div_less_iff_less_mult)
  ultimately show "a < 256 \<Longrightarrow> a div 4 < 64" "b < 256 \<Longrightarrow> 16 * (a mod 4) + b div 16 < 64"
    "c < 256 \<Longrightarrow> 4 * (b mod 16) + c div 64 < 64" "16 * (a mod 4) < 64" "4 * (b mod 16) < 64"
    by linarith+
qed

lemma split_byte:
  "b < 256 \<Longrightarrow> b div 16 div 16 = (0 :: nat)" "b < 256 \<Longrightarrow> b div 64 div 4 = (0 :: nat)"
  "b < 256 \<Longrightarrow> b div 16 mod 16 = (b div 16 :: nat)" "b < 256 \<Longrightarrow> b div 64 mod 4 = (b div 64 :: nat)"
  by (simp_all add: div_mult2_eq [symmetric])

lemma padding_step: "(6 + 2 * n) mod 3 = 2 * n mod (3 :: nat)"
  by presburger

lemma decode_groups_encode:
  "list_all (\<lambda>b. b < 256) bs \<Longrightarrow>
   decode_groups (base64_digits (base64_encode bs)) = bs @ replicate (2 * length bs mod 3) 0"
proof (induction bs rule: base64_encode.induct)
  case (1 a b c bs)
  then show ?case by (simp add: sextet_less split_byte padding_step)
qed (simp_all add: sextet_less split_byte numeral_2_eq_2)

lemma decode_groups_encode_unpadded:
  "list_all (\<lambda>b. b < 256) bs \<Longrightarrow> decode_groups (base64_digits (base64_encode_unpadded bs)) = bs"
  unfolding base64_encode_unpadded_def
proof (induction bs rule: base64_encode.induct)
  case (1 a b c bs)
  then show ?case by (simp add: sextet_less split_byte padding_step)
qed (simp_all add: sextet_less split_byte padding_step)

lemma base64_digits_all: "list_all (\<lambda>d. d < 64) (base64_digits s)"
  using base64_digits_less by (auto simp: list_all_iff)

lemma decode_base64_groups:
  "decode_base64 s =
     (let bs = map of_nat (decode_groups (base64_digits s)) in
      if length bs \<le> YUREI_EVENT_PAYLOAD_MAX then Some bs else None)"
proof -
  let ?bs = "digit_bytes (base64_digits s) 0 (- 8)"
  have "?bs = map (of_nat \<circ> unat) ?bs" by (rule map_idI [symmetric]) simp
  then have "?bs = map of_nat (decode_groups (base64_digits s))"
    using digit_bytes_groups [OF base64_digits_all, of s 0] by (metis map_map)
  then show ?thesis by (simp add: decode_base64_def decode_loop_digits)
qed

text \<open>
  C9. On every input the loop of \<open>decode_base64\<close>, with its wrapping 32-bit accumulator and
  its table, computes the bytes that RFC 4648 gives for the digits before the first foreign
  character, white space skipped; it fails exactly when they do not fit the 4096 bytes of the
  payload, so it never writes outside the buffer.
\<close>

theorem decode_base64_rfc4648:
  "decode_base64 s =
     (let bs = map of_nat (decode_groups (base64_digits s)) in
      if length bs \<le> YUREI_EVENT_PAYLOAD_MAX then Some bs else None)"
  by (rule decode_base64_groups)

lemma bytes_list_all: "list_all (\<lambda>b. b < 256) (map unat (bytes :: u8 list))"
  by (auto simp: list_all_iff intro: unsigned_less [where 'a = nat, THEN order_less_le_trans])

lemma map_of_nat_unat: "map of_nat (map unat (bytes :: u8 list)) = bytes"
  by (simp add: map_idI)

text \<open>
  C16. Decoding what a standard encoder made: without padding the bytes come back, up to the
  size of the payload. With padding each \<open>=\<close> is read as six zero bits, so one or two zero
  bytes that were never encoded follow the payload, and a payload of 4096 bytes is refused
  although it fits.
\<close>

theorem decode_base64_roundtrip:
  "decode_base64 (base64_encode_unpadded (map unat bytes)) =
     (if length bytes \<le> YUREI_EVENT_PAYLOAD_MAX then Some bytes else None)
   \<and> decode_base64 (base64_encode (map unat bytes)) =
     (if length bytes + 2 * length bytes mod 3 \<le> YUREI_EVENT_PAYLOAD_MAX
      then Some (bytes @ replicate (2 * length bytes mod 3) 0) else None)"
  using decode_groups_encode [OF bytes_list_all, of bytes] decode_groups_encode_unpadded [OF bytes_list_all, of bytes]
    map_of_nat_unat [of bytes]
  by (simp add: decode_base64_groups Let_def)

text \<open>The encoding of the byte 1, as \<open>sol_log_data\<close> prints it, is decoded as three bytes.\<close>

lemma padded_byte_decoded: "decode_base64 ''AQ=='' = Some [1, 0, 0]" "decode_base64 ''AQ'' = Some [1]"
  by (simp_all add: decode_base64_groups base64_digit_def YUREI_EVENT_PAYLOAD_MAX_def isspace_def)

end
