(* ===== verification/IEEE_Double.thy ===== *)
theory IEEE_Double
  imports Yurei_Prelude Complex_Main "HOL-Library.Log_Nat"
begin

text \<open>
  The C type \<open>double\<close> on the machines the program builds for: IEEE 754 binary64, in the
  default rounding mode. A finite double is modelled by the rational number it denotes,
  and the result of an operation by \<open>dround\<close> of the exact result, which rounds to a
  53-bit significand, ties to even, with the exponent of the subnormal numbers as lower
  limit. Overflow to infinity is not modelled: every quantity the program computes stays
  far below \<open>2 ^ 1024\<close>.

  What the clients use of it is the contract \<open>fp_rounding\<close>: rounding is monotone,
  idempotent and exact on integers and dyadic fractions that fit in 53 bits.
\<close>

section \<open>The contract\<close>

locale fp_rounding =
  fixes fl :: "rat \<Rightarrow> rat"
  assumes fl_mono: "x \<le> y \<Longrightarrow> fl x \<le> fl y"
    and fl_idem: "fl (fl x) = fl x"
    and fl_dyadic: "\<bar>m\<bar> \<le> 2 ^ 53 \<Longrightarrow> k \<le> 1074 \<Longrightarrow> fl (of_int m / 2 ^ k) = of_int m / 2 ^ k"
begin

lemma fl_int: "\<bar>m\<bar> \<le> 2 ^ 53 \<Longrightarrow> fl (of_int m) = of_int m"
  using fl_dyadic [of m 0] by simp

lemma fl_0: "fl 0 = 0"
  using fl_int [of 0] by simp

lemma fl_1: "fl 1 = 1"
  using fl_int [of 1] by simp

lemma fl_nonneg: "0 \<le> x \<Longrightarrow> 0 \<le> fl x"
  using fl_mono [of 0 x] by (simp add: fl_0)

lemma fl_nat: "n \<le> 2 ^ 53 \<Longrightarrow> fl (of_nat n) = of_nat n"
  using fl_int [of "int n"] by simp

lemma fl_ge_rep: "fl r = r \<Longrightarrow> r \<le> x \<Longrightarrow> r \<le> fl x"
  using fl_mono [of r x] by simp

lemma fl_le_rep: "fl r = r \<Longrightarrow> x \<le> r \<Longrightarrow> fl x \<le> r"
  using fl_mono [of x r] by simp

end

text \<open>Exact arithmetic satisfies the contract: an idealised machine with no rounding.\<close>

interpretation exact: fp_rounding "\<lambda>x. x"
  by unfold_locales auto

section \<open>Rounding to the nearest integer, ties to even\<close>

definition rne :: "rat \<Rightarrow> int" where
  "rne x = (let f = \<lfloor>x\<rfloor>; d = x - of_int f in
     if d < 1/2 then f else if 1/2 < d then f + 1 else if even f then f else f + 1)"

lemma rne_bounds: "\<lfloor>x\<rfloor> \<le> rne x" "rne x \<le> \<lfloor>x\<rfloor> + 1"
  by (auto simp: rne_def Let_def)

lemma rne_int [simp]: "rne (of_int m) = m"
  by (simp add: rne_def)

lemma rne_mono: "x \<le> y \<Longrightarrow> rne x \<le> rne y"
proof (cases "\<lfloor>x\<rfloor> = \<lfloor>y\<rfloor>")
  case True
  moreover assume "x \<le> y"
  ultimately show ?thesis by (auto simp: rne_def Let_def)
next
  case False
  moreover assume "x \<le> y"
  ultimately have "\<lfloor>x\<rfloor> + 1 \<le> \<lfloor>y\<rfloor>" using floor_mono [of x y] by linarith
  then show ?thesis using rne_bounds [of x] rne_bounds [of y] by linarith
qed

lemma rne_minus: "rne (- x) = - rne x"
proof (cases "x \<in> \<int>")
  case True
  then obtain m where "x = of_int m" by (auto elim: Ints_cases)
  then show ?thesis using rne_int [of "- m"] by simp
next
  case False
  then have "of_int \<lfloor>x\<rfloor> \<noteq> x" by (metis Ints_of_int)
  then have f: "\<lfloor>- x\<rfloor> = - \<lfloor>x\<rfloor> - 1"
    by (simp add: floor_minus ceiling_altdef)
  then show ?thesis by (auto simp: rne_def Let_def)
qed

lemma rne_le_int: "x \<le> of_int m \<Longrightarrow> rne x \<le> m"
  using rne_mono [of x "of_int m"] by simp

lemma rne_ge_int: "of_int m \<le> x \<Longrightarrow> m \<le> rne x"
  using rne_mono [of "of_int m" x] by simp

section \<open>The binary exponent\<close>

definition ilog2 :: "rat \<Rightarrow> int" where
  "ilog2 x = (if 1 \<le> x then bitlen \<lfloor>x\<rfloor> - 1 else - bitlen (\<lceil>1 / x\<rceil> - 1))"

lemma bitlen_floor_bounds:
  assumes "1 \<le> (n::int)"
  shows "2 ^ nat (bitlen n - 1) \<le> n" "n < 2 ^ nat (bitlen n)" "1 \<le> bitlen n"
  using assms bitlen_bounds [of n] bitlen_ge_iff_power [of 1 n] by auto

lemma powi_2_nat: "0 \<le> k \<Longrightarrow> (2::rat) powi k = of_int (2 ^ nat k)"
  by (simp add: power_int_def)

lemma ilog2_bounds:
  assumes "0 < x"
  shows "2 powi ilog2 x \<le> x" "x < 2 powi (ilog2 x + 1)"
proof -
  have "2 powi ilog2 x \<le> x \<and> x < 2 powi (ilog2 x + 1)"
  proof (cases "1 \<le> x")
    case True
    then have f: "1 \<le> \<lfloor>x\<rfloor>" by simp
    note b = bitlen_floor_bounds [OF f]
    have "of_int (2 ^ nat (bitlen \<lfloor>x\<rfloor> - 1)) \<le> x" using b(1) by (simp add: le_floor_iff)
    moreover have "x < of_int (2 ^ nat (bitlen \<lfloor>x\<rfloor>))" using b(2) by (simp add: floor_less_iff)
    ultimately show ?thesis using True b(3) by (simp add: ilog2_def powi_2_nat)
  next
    case False
    with assms have "1 < 1 / x" by (simp add: field_simps)
    then have c: "1 \<le> \<lceil>1 / x\<rceil> - 1" by (simp add: less_ceiling_iff)
    let ?k = "bitlen (\<lceil>1 / x\<rceil> - 1)"
    note b = bitlen_floor_bounds [OF c]
    have "2 ^ nat (?k - 1) < \<lceil>1 / x\<rceil>" using b(1) by linarith
    then have "of_int (2 ^ nat (?k - 1)) < 1 / x" by (simp only: less_ceiling_iff)
    then have "x * 2 powi (?k - 1) < 1" using assms b(3) by (simp add: powi_2_nat field_simps)
    moreover have "\<lceil>1 / x\<rceil> \<le> 2 ^ nat ?k" using b(2) by linarith
    then have "1 / x \<le> of_int (2 ^ nat ?k)" by (simp only: ceiling_le_iff)
    then have "1 \<le> x * 2 powi ?k" using assms b(3) by (simp add: powi_2_nat field_simps)
    ultimately show ?thesis using False assms
      by (simp add: ilog2_def power_int_diff power_int_minus power_int_add field_simps)
  qed
  then show "2 powi ilog2 x \<le> x" "x < 2 powi (ilog2 x + 1)" by auto
qed

lemma powi_2_less_iff: "(2::rat) powi a < 2 powi b \<longleftrightarrow> a < b"
  by (metis (no_types) linorder_not_less numeral_less_iff one_less_numeral_iff order_less_imp_le
      power_int_increasing power_int_strict_increasing semiring_norm(76))

lemma powi_2_le_iff: "(2::rat) powi a \<le> 2 powi b \<longleftrightarrow> a \<le> b"
  using powi_2_less_iff [of b a] by linarith

lemma ilog2_mono: "0 < x \<Longrightarrow> x \<le> y \<Longrightarrow> ilog2 x \<le> ilog2 y"
  using ilog2_bounds [of x] ilog2_bounds [of y] powi_2_less_iff [of "ilog2 x" "ilog2 y + 1"]
  by linarith

lemma ilog2_less: "0 < x \<Longrightarrow> x < 2 powi k \<Longrightarrow> ilog2 x < k"
  using ilog2_bounds(1) [of x] powi_2_less_iff [of "ilog2 x" k] by linarith

section \<open>Rounding to binary64\<close>

definition ulp_exp :: "rat \<Rightarrow> int" where
  "ulp_exp x = max (ilog2 \<bar>x\<bar> - 52) (- 1074)"

definition dround :: "rat \<Rightarrow> rat" where
  "dround x = (if x = 0 then 0
     else of_int (rne (x / 2 powi ulp_exp x)) * 2 powi ulp_exp x)"

lemma dround_minus: "dround (- x) = - dround x"
  using rne_minus [of "x / 2 powi ulp_exp x"] by (simp add: dround_def ulp_exp_def)

lemma dround_0 [simp]: "dround 0 = 0"
  by (simp add: dround_def)

lemma powi_split: "(2::rat) powi a = 2 powi (a - b) * 2 powi b"
  by (simp flip: power_int_add)

text \<open>A multiple of a power of two that is no finer than the ulp is exact.\<close>

lemma dround_le_multiple:
  assumes "x \<le> of_int m * 2 powi k" and "ulp_exp x \<le> k" and "x \<noteq> 0"
  shows "dround x \<le> of_int m * 2 powi k"
proof -
  let ?e = "ulp_exp x"
  have eq: "of_int m * 2 powi k = (of_int (m * 2 ^ nat (k - ?e)) :: rat) * 2 powi ?e"
    using assms(2) powi_2_nat [of "k - ?e"] powi_split [of k ?e] by simp
  then have "x / 2 powi ?e \<le> of_int (m * 2 ^ nat (k - ?e))"
    using assms(1) unfolding eq by (subst pos_divide_le_eq) simp_all
  then have "rne (x / 2 powi ?e) \<le> m * 2 ^ nat (k - ?e)"
    by (rule rne_le_int)
  then have "(of_int (rne (x / 2 powi ?e)) :: rat) \<le> of_int (m * 2 ^ nat (k - ?e))"
    by (simp only: of_int_le_iff)
  then show ?thesis
    using assms(3) unfolding eq dround_def by (simp add: mult_right_mono)
qed

lemma dround_ge_multiple:
  assumes "of_int m * 2 powi k \<le> x" and "ulp_exp x \<le> k" and "x \<noteq> 0"
  shows "of_int m * 2 powi k \<le> dround x"
proof -
  have "dround (- x) \<le> of_int (- m) * 2 powi k"
    using assms by (intro dround_le_multiple) (auto simp: ulp_exp_def)
  then show ?thesis by (simp add: dround_minus)
qed

lemma dround_multiple: "x = of_int m * 2 powi k \<Longrightarrow> ulp_exp x \<le> k \<Longrightarrow> dround x = x"
  by (cases "x = 0") (auto intro!: antisym dround_le_multiple dround_ge_multiple)

lemma dround_small:
  assumes "\<bar>m\<bar> < 2 ^ 53" and "- 1074 \<le> k"
  shows "dround (of_int m * 2 powi k) = of_int m * 2 powi k"
proof (cases "m = 0")
  case False
  have "\<bar>of_int m\<bar> < (of_int (2 ^ 53) :: rat)"
    using assms(1) by (simp only: of_int_less_iff flip: of_int_abs)
  then have "\<bar>of_int m * 2 powi k :: rat\<bar> < of_int (2 ^ 53) * 2 powi k"
    by (simp add: abs_mult)
  also have "(of_int (2 ^ 53) :: rat) * 2 powi k = 2 powi (k + 53)"
    by (simp add: power_int_add)
  finally have "ilog2 \<bar>of_int m * 2 powi k :: rat\<bar> < k + 53"
    using False by (intro ilog2_less) auto
  then show ?thesis using assms(2) by (intro dround_multiple) (auto simp: ulp_exp_def)
qed simp

lemma dround_exact:
  assumes "\<bar>m\<bar> \<le> 2 ^ 53" and "- 1074 \<le> k"
  shows "dround (of_int m * 2 powi k) = of_int m * 2 powi k"
proof (cases "\<bar>m\<bar> = 2 ^ 53")
  case True
  then have "m = sgn m * 2 ^ 53" by (simp add: abs_if sgn_if split: if_splits)
  then have "(of_int m :: rat) = of_int (sgn m) * 2 ^ 53"
    by (metis of_int_mult of_int_numeral of_int_power)
  then have "(of_int m :: rat) * 2 powi k = of_int (sgn m) * 2 powi (k + 53)"
    by (simp add: power_int_add)
  moreover have "\<bar>sgn m\<bar> < 2 ^ 53" by (simp add: sgn_if)
  ultimately show ?thesis using assms(2) dround_small [of "sgn m" "k + 53"] by simp
next
  case False
  with assms show ?thesis by (intro dround_small) auto
qed

lemma dround_mono_pos:
  assumes "0 < x" and "x \<le> y"
  shows "dround x \<le> dround y"
proof (cases "ulp_exp x = ulp_exp y")
  case True
  have "rne (x / 2 powi ulp_exp x) \<le> rne (y / 2 powi ulp_exp x)"
    using assms by (intro rne_mono divide_right_mono) auto
  then show ?thesis using assms True by (simp add: dround_def mult_right_mono)
next
  case False
  have l: "ilog2 x \<le> ilog2 y" using assms by (rule ilog2_mono)
  with False assms have e: "ilog2 x < ilog2 y" "ulp_exp y = ilog2 y - 52" "ulp_exp x \<le> ilog2 y"
    by (auto simp: ulp_exp_def max_def split: if_splits)
  have "x < 2 powi (ilog2 x + 1)" using assms ilog2_bounds by auto
  also have "\<dots> \<le> 2 powi ilog2 y" using e(1) by (simp add: powi_2_le_iff)
  finally have "dround x \<le> of_int 1 * 2 powi ilog2 y"
    using assms e(3) by (intro dround_le_multiple) auto
  also have "\<dots> \<le> dround y"
    using assms e(2) ilog2_bounds(1) [of y] by (intro dround_ge_multiple) auto
  finally show ?thesis .
qed

lemma dround_nonneg: "0 \<le> x \<Longrightarrow> 0 \<le> dround x"
  using rne_ge_int [of 0 "x / 2 powi ulp_exp x"] by (auto simp: dround_def)

lemma dround_mono: "x \<le> y \<Longrightarrow> dround x \<le> dround y"
proof -
  assume xy: "x \<le> y"
  consider "0 < x" | "x \<le> 0" "0 \<le> y" | "y < 0" by linarith
  then show ?thesis
  proof cases
    case 1
    with xy show ?thesis by (intro dround_mono_pos)
  next
    case 2
    then show ?thesis using dround_nonneg [of y] dround_nonneg [of "- x"] by (simp add: dround_minus)
  next
    case 3
    then have "dround (- y) \<le> dround (- x)" using xy by (intro dround_mono_pos) auto
    then show ?thesis by (simp add: dround_minus)
  qed
qed

lemma dround_idem: "dround (dround x) = dround x"
proof (cases "x = 0")
  case False
  let ?e = "ulp_exp x"
  have "\<bar>x\<bar> < 2 powi (ilog2 \<bar>x\<bar> + 1)" using False ilog2_bounds [of "\<bar>x\<bar>"] by auto
  also have "\<dots> \<le> 2 powi (?e + 53)" by (auto simp: powi_2_le_iff ulp_exp_def)
  also have "(2::rat) powi (?e + 53) = of_int (2 ^ 53) * 2 powi ?e" by (simp add: power_int_add)
  finally have "\<bar>x / 2 powi ?e\<bar> \<le> of_int (2 ^ 53)" by (simp add: abs_divide pos_divide_le_eq)
  then have "x / 2 powi ?e \<le> of_int (2 ^ 53)" "of_int (- (2 ^ 53)) \<le> x / 2 powi ?e"
    using abs_le_D1 abs_le_D2 by fastforce+
  then have "\<bar>rne (x / 2 powi ?e)\<bar> \<le> 2 ^ 53"
    using rne_le_int [of "x / 2 powi ?e" "2 ^ 53"] rne_ge_int [of "- (2 ^ 53)" "x / 2 powi ?e"]
    by linarith
  then show ?thesis
    using False by (subst (2 3) dround_def) (auto intro: dround_exact simp: ulp_exp_def)
qed simp

interpretation binary64: fp_rounding dround
proof
  fix m :: int and k :: nat
  assume "\<bar>m\<bar> \<le> 2 ^ 53" and "k \<le> 1074"
  then have "dround (of_int m * 2 powi (- int k)) = of_int m * 2 powi (- int k)"
    by (intro dround_exact) auto
  then show "dround (of_int m / 2 ^ k) = of_int m / 2 ^ k"
    by (simp add: power_int_minus divide_inverse)
qed (auto intro: dround_mono dround_idem)

end
