(* ===== verification/Parser.thy ===== *)
theory Parser
  imports Base64 Config IEEE_Double
begin

text \<open>
  \<open>src/parser.c\<close>: from the text of an RPC response or notification to events in the queue.
  The cJSON library is not part of the repository: its functions are a parameter, a record of
  the accessors the code calls on an abstract type of nodes. The queue is a parameter too,
  any provider of the contract \<open>event_sink\<close>; the ring buffer of \<open>Event_Queue\<close> is one.
\<close>

section \<open>What the code uses of cJSON\<close>

text \<open>
  A \<open>cJSON*\<close> that may be \<open>NULL\<close> is an option; the type tests are false on \<open>NULL\<close>, and looking
  up a key in \<open>NULL\<close> gives \<open>NULL\<close>. \<open>json_children\<close> is the chain of \<open>child\<close> and \<open>next\<close>
  that \<open>cJSON_ArrayForEach\<close> follows. A number is a double; an infinite one is represented by
  some rational beyond the range of \<open>uint64_t\<close>, where it makes no difference to the code.
\<close>

record 'j cjson =
  json_parse :: "string \<Rightarrow> 'j option"
  json_is_array :: "'j \<Rightarrow> bool"
  json_is_object :: "'j \<Rightarrow> bool"
  json_is_string :: "'j \<Rightarrow> bool"
  json_is_number :: "'j \<Rightarrow> bool"
  json_get :: "'j \<Rightarrow> string \<Rightarrow> 'j option"
  json_children :: "'j \<Rightarrow> 'j list"
  json_valuestring :: "'j \<Rightarrow> string option"
  json_valuedouble :: "'j \<Rightarrow> rat"

definition test_opt :: "('j \<Rightarrow> bool) \<Rightarrow> 'j option \<Rightarrow> bool" where
  "test_opt p jo = (case jo of None \<Rightarrow> False | Some j \<Rightarrow> p j)"

text \<open>
  The conversion \<open>(uint64_t) x\<close> of a double truncates towards zero. Outside the range of
  the type it is undefined behaviour: \<open>oob\<close> stands for what the machine makes of it.
\<close>

definition double_to_uint64 :: "(rat \<Rightarrow> u64) \<Rightarrow> rat \<Rightarrow> u64" where
  "double_to_uint64 oob x =
     (if - 1 < x \<and> x < 2 ^ 64 then of_int (if 0 \<le> x then \<lfloor>x\<rfloor> else \<lceil>x\<rceil>) else oob x)"

text \<open>\<open>cJSON_ArrayForEach\<close> with a body that may wait.\<close>

fun for_each :: "('a \<Rightarrow> 's \<Rightarrow> 's option) \<Rightarrow> 'a list \<Rightarrow> 's \<Rightarrow> 's option" where
  "for_each body [] s = Some s"
| "for_each body (x # xs) s = (case body x s of None \<Rightarrow> None | Some s' \<Rightarrow> for_each body xs s')"

section \<open>The handlers\<close>

record 'q ParserContext =
  ctx_queue :: 'q
  ctx_highest_slot :: u64
  ctx_event_count :: nat
  ctx_log :: "log_event list"

definition program_to_kind :: "string option \<Rightarrow> YureiConfig \<Rightarrow> YureiEventKind" where
  "program_to_kind program_id config =
     (case program_id of
        None \<Rightarrow> YUREI_EVENT_KIND_UNKNOWN
      | Some p \<Rightarrow>
          if pumpfun_program config \<noteq> [] \<and> strcaseeq p (pumpfun_program config) then YUREI_EVENT_KIND_PUMPFUN
          else if raydium_program config \<noteq> [] \<and> strcaseeq p (raydium_program config) then YUREI_EVENT_KIND_RAYDIUM
          else YUREI_EVENT_KIND_UNKNOWN)"

definition data_marker :: string where
  "data_marker = ''Program data:''"

definition enqueue_event ::
  "('q \<Rightarrow> YureiEvent \<Rightarrow> (int \<times> 'q) option) \<Rightarrow> YureiConfig \<Rightarrow> string option \<Rightarrow> string option \<Rightarrow> u64 \<Rightarrow> string
    \<Rightarrow> 'q ParserContext \<Rightarrow> 'q ParserContext option" where
  "enqueue_event push config program_id signature slot line ctx =
     (case strstr line data_marker of
        None \<Rightarrow> Some ctx
      | Some found \<Rightarrow>
          let marker = dropWhile isspace (drop (length data_marker) found) in
          if marker = [] then Some ctx
          else
            let event = zero_event\<lparr>ev_slot := slot\<rparr>;
                event = (case signature of None \<Rightarrow> event | Some s \<Rightarrow> event\<lparr>ev_signature := snprintf_str 128 s\<rparr>);
                event = (case program_id of None \<Rightarrow> event | Some p \<Rightarrow> event\<lparr>ev_program_id := snprintf_str 64 p\<rparr>);
                event = event\<lparr>ev_kind :=
                  program_to_kind (case program_id of None \<Rightarrow> Some (pumpfun_program config) | Some p \<Rightarrow> Some p) config\<rparr>
            in case decode_base64 marker of
                 None \<Rightarrow> Some (ctx\<lparr>ctx_log := ctx_log ctx @
                   [(YUREI_LOG_WARN, ''Failed to decode base64 payload (signature='' @ ev_signature event @ '')'')]\<rparr>)
               | Some bytes \<Rightarrow>
                   (case push (ctx_queue ctx) (event\<lparr>ev_data := bytes, ev_data_len := length bytes\<rparr>) of
                      None \<Rightarrow> None
                    | Some (rc, queue) \<Rightarrow>
                        if rc = 0 then
                          Some (ctx\<lparr>ctx_queue := queue, ctx_event_count := ctx_event_count ctx + 1,
                            ctx_highest_slot := (if ctx_highest_slot ctx < slot then slot else ctx_highest_slot ctx)\<rparr>)
                        else
                          Some (ctx\<lparr>ctx_queue := queue, ctx_log := ctx_log ctx @
                            [(YUREI_LOG_WARN, ''Queue backpressure prevented enqueue of slot='' @ show_nat (unat slot))]\<rparr>)))"

definition process_logs_array ::
  "'j cjson \<Rightarrow> ('q \<Rightarrow> YureiEvent \<Rightarrow> (int \<times> 'q) option) \<Rightarrow> YureiConfig \<Rightarrow> 'j option \<Rightarrow> string option \<Rightarrow> string option
    \<Rightarrow> u64 \<Rightarrow> 'q ParserContext \<Rightarrow> 'q ParserContext option" where
  "process_logs_array cj push config logs program_id signature slot ctx =
     (case logs of
        None \<Rightarrow> Some ctx
      | Some l \<Rightarrow>
          if \<not> json_is_array cj l then Some ctx
          else for_each (\<lambda>log ctx.
                 if \<not> json_is_string cj log then Some ctx
                 else case json_valuestring cj log of
                        None \<Rightarrow> Some ctx
                      | Some line \<Rightarrow> enqueue_event push config program_id signature slot line ctx)
                 (json_children cj l) ctx)"

text \<open>\<open>cJSON_IsNumber(item) ? (uint64_t) item->valuedouble : otherwise\<close>, and \<open>valuestring\<close> of a string.\<close>

definition slot_or :: "'j cjson \<Rightarrow> (rat \<Rightarrow> u64) \<Rightarrow> 'j option \<Rightarrow> u64 \<Rightarrow> u64" where
  "slot_or cj oob item otherwise =
     (case item of
        None \<Rightarrow> otherwise
      | Some i \<Rightarrow> if json_is_number cj i then double_to_uint64 oob (json_valuedouble cj i) else otherwise)"

definition string_of :: "'j cjson \<Rightarrow> 'j option \<Rightarrow> string option" where
  "string_of cj item =
     (case item of None \<Rightarrow> None | Some i \<Rightarrow> if json_is_string cj i then json_valuestring cj i else None)"

definition process_value_object ::
  "'j cjson \<Rightarrow> (rat \<Rightarrow> u64) \<Rightarrow> ('q \<Rightarrow> YureiEvent \<Rightarrow> (int \<times> 'q) option) \<Rightarrow> YureiConfig \<Rightarrow> u64 \<Rightarrow> 'j
    \<Rightarrow> 'q ParserContext \<Rightarrow> 'q ParserContext option" where
  "process_value_object cj oob push config fallback_slot value ctx =
     (if \<not> json_is_object cj value then Some ctx
      else
        let logs = json_get cj value ''logs'';
            signature = json_get cj value ''signature'';
            slot_item = json_get cj value ''slot'';
            program = json_get cj value ''programId'';
            slot = slot_or cj oob slot_item fallback_slot
        in process_logs_array cj push config logs (string_of cj program) (string_of cj signature) slot ctx)"

definition process_result_object ::
  "'j cjson \<Rightarrow> (rat \<Rightarrow> u64) \<Rightarrow> ('q \<Rightarrow> YureiEvent \<Rightarrow> (int \<times> 'q) option) \<Rightarrow> YureiConfig \<Rightarrow> 'j
    \<Rightarrow> 'q ParserContext \<Rightarrow> 'q ParserContext option" where
  "process_result_object cj oob push config result ctx =
     (let value = json_get cj result ''value'';
          context = json_get cj result ''context'';
          slot = (case context of
                    None \<Rightarrow> 0
                  | Some c \<Rightarrow> if json_is_object cj c then slot_or cj oob (json_get cj c ''slot'') 0 else 0)
      in case value of
           None \<Rightarrow> Some ctx
         | Some v \<Rightarrow>
             if json_is_object cj v then
               let slot = slot_or cj oob (json_get cj v ''slot'') slot
               in process_value_object cj oob push config slot v ctx
             else if json_is_array cj v then
               for_each (process_value_object cj oob push config slot) (json_children cj v) ctx
             else Some ctx)"

text \<open>
  \<open>json\<close>, \<open>config\<close> and \<open>queue\<close> are not \<open>NULL\<close>. The result is the return value, the queue,
  \<open>*out_highest_slot\<close> when there is one, and the messages logged.
\<close>

definition yurei_parser_handle_message ::
  "'j cjson \<Rightarrow> (rat \<Rightarrow> u64) \<Rightarrow> ('q \<Rightarrow> YureiEvent \<Rightarrow> (int \<times> 'q) option) \<Rightarrow> string \<Rightarrow> YureiConfig \<Rightarrow> 'q \<Rightarrow> u64 option
    \<Rightarrow> (int \<times> 'q \<times> u64 option \<times> log_event list) option" where
  "yurei_parser_handle_message cj oob push json config queue out_highest_slot =
     (let ctx = \<lparr>ctx_queue = queue, ctx_highest_slot = (case out_highest_slot of None \<Rightarrow> 0 | Some h \<Rightarrow> h),
                 ctx_event_count = 0, ctx_log = []\<rparr>
      in case json_parse cj json of
           None \<Rightarrow> Some (- 1, queue, out_highest_slot, [(YUREI_LOG_WARN, ''Failed to parse JSON payload'')])
         | Some doc \<Rightarrow>
             let result = json_get cj doc ''result'';
                 params = json_get cj doc ''params'';
                 finished =
                   (if test_opt (json_is_object cj) result then
                      process_result_object cj oob push config (the result) ctx
                    else if test_opt (json_is_array cj) result then
                      for_each (process_value_object cj oob push config 0) (json_children cj (the result)) ctx
                    else if test_opt (json_is_object cj) params then
                      let params_result = json_get cj (the params) ''result'' in
                      if test_opt (json_is_object cj) params_result
                      then process_result_object cj oob push config (the params_result) ctx
                      else Some ctx
                    else Some ctx)
             in map_option (\<lambda>ctx. (int (ctx_event_count ctx), ctx_queue ctx,
                  map_option (\<lambda>_. ctx_highest_slot ctx) out_highest_slot, ctx_log ctx)) finished)"

section \<open>The events of a message\<close>

text \<open>
  The specification: the actions a message asks for, in order, as a function of the message
  and the configuration alone. An action delivers an event or logs that a payload is not
  decodable.
\<close>

datatype parser_action = Deliver YureiEvent | Warn log_event

definition line_payload :: "string \<Rightarrow> string option" where
  "line_payload line =
     (case strstr line data_marker of
        None \<Rightarrow> None
      | Some found \<Rightarrow> let m = dropWhile isspace (drop (length data_marker) found) in if m = [] then None else Some m)"

definition line_event :: "YureiConfig \<Rightarrow> string option \<Rightarrow> string option \<Rightarrow> u64 \<Rightarrow> u8 list \<Rightarrow> YureiEvent" where
  "line_event config program_id signature slot bytes =
     \<lparr>ev_kind = program_to_kind (case program_id of None \<Rightarrow> Some (pumpfun_program config) | Some p \<Rightarrow> Some p) config,
      ev_program_id = (case program_id of None \<Rightarrow> [] | Some p \<Rightarrow> snprintf_str 64 p),
      ev_signature = (case signature of None \<Rightarrow> [] | Some s \<Rightarrow> snprintf_str 128 s),
      ev_slot = slot, ev_data = bytes, ev_data_len = length bytes\<rparr>"

definition line_actions ::
  "YureiConfig \<Rightarrow> string option \<Rightarrow> string option \<Rightarrow> u64 \<Rightarrow> string \<Rightarrow> parser_action list" where
  "line_actions config program_id signature slot line =
     (case line_payload line of
        None \<Rightarrow> []
      | Some m \<Rightarrow>
          (case decode_base64 m of
             None \<Rightarrow> [Warn (YUREI_LOG_WARN, ''Failed to decode base64 payload (signature='' @
                (case signature of None \<Rightarrow> [] | Some s \<Rightarrow> snprintf_str 128 s) @ '')'')]
           | Some bytes \<Rightarrow> [Deliver (line_event config program_id signature slot bytes)]))"

definition log_lines :: "'j cjson \<Rightarrow> 'j option \<Rightarrow> string list" where
  "log_lines cj logs =
     (case logs of
        None \<Rightarrow> []
      | Some l \<Rightarrow> if json_is_array cj l then List.map_filter (\<lambda>j. string_of cj (Some j)) (json_children cj l) else [])"

definition value_actions :: "'j cjson \<Rightarrow> (rat \<Rightarrow> u64) \<Rightarrow> YureiConfig \<Rightarrow> u64 \<Rightarrow> 'j \<Rightarrow> parser_action list" where
  "value_actions cj oob config fallback_slot value =
     (if json_is_object cj value then
        concat (map (line_actions config (string_of cj (json_get cj value ''programId''))
                       (string_of cj (json_get cj value ''signature''))
                       (slot_or cj oob (json_get cj value ''slot'') fallback_slot))
                  (log_lines cj (json_get cj value ''logs'')))
      else [])"

definition result_actions :: "'j cjson \<Rightarrow> (rat \<Rightarrow> u64) \<Rightarrow> YureiConfig \<Rightarrow> 'j \<Rightarrow> parser_action list" where
  "result_actions cj oob config result =
     (let slot = (case json_get cj result ''context'' of
                    None \<Rightarrow> 0
                  | Some c \<Rightarrow> if json_is_object cj c then slot_or cj oob (json_get cj c ''slot'') 0 else 0)
      in case json_get cj result ''value'' of
           None \<Rightarrow> []
         | Some v \<Rightarrow>
             if json_is_object cj v then value_actions cj oob config slot v
             else if json_is_array cj v then concat (map (value_actions cj oob config slot) (json_children cj v))
             else [])"

definition params_actions :: "'j cjson \<Rightarrow> (rat \<Rightarrow> u64) \<Rightarrow> YureiConfig \<Rightarrow> 'j \<Rightarrow> parser_action list" where
  "params_actions cj oob config doc =
     (case json_get cj doc ''params'' of
        None \<Rightarrow> []
      | Some p \<Rightarrow>
          if json_is_object cj p then
            (case json_get cj p ''result'' of
               None \<Rightarrow> []
             | Some r \<Rightarrow> if json_is_object cj r then result_actions cj oob config r else [])
          else [])"

definition document_actions :: "'j cjson \<Rightarrow> (rat \<Rightarrow> u64) \<Rightarrow> YureiConfig \<Rightarrow> 'j \<Rightarrow> parser_action list" where
  "document_actions cj oob config doc =
     (case json_get cj doc ''result'' of
        Some r \<Rightarrow>
          if json_is_object cj r then result_actions cj oob config r
          else if json_is_array cj r then concat (map (value_actions cj oob config 0) (json_children cj r))
          else params_actions cj oob config doc
      | None \<Rightarrow> params_actions cj oob config doc)"

definition message_actions :: "'j cjson \<Rightarrow> (rat \<Rightarrow> u64) \<Rightarrow> YureiConfig \<Rightarrow> string \<Rightarrow> parser_action list" where
  "message_actions cj oob config json =
     (case json_parse cj json of None \<Rightarrow> [] | Some doc \<Rightarrow> document_actions cj oob config doc)"

fun delivered :: "parser_action list \<Rightarrow> YureiEvent list" where
  "delivered [] = []"
| "delivered (Deliver e # as) = e # delivered as"
| "delivered (Warn m # as) = delivered as"

fun warnings :: "parser_action list \<Rightarrow> log_event list" where
  "warnings [] = []"
| "warnings (Deliver e # as) = warnings as"
| "warnings (Warn m # as) = m # warnings as"

section \<open>The handlers perform these actions\<close>

definition do_action ::
  "('q \<Rightarrow> YureiEvent \<Rightarrow> (int \<times> 'q) option) \<Rightarrow> parser_action \<Rightarrow> 'q ParserContext \<Rightarrow> 'q ParserContext option" where
  "do_action push a ctx =
     (case a of
        Warn m \<Rightarrow> Some (ctx\<lparr>ctx_log := ctx_log ctx @ [m]\<rparr>)
      | Deliver e \<Rightarrow>
          (case push (ctx_queue ctx) e of
             None \<Rightarrow> None
           | Some (rc, queue) \<Rightarrow>
               if rc = 0 then
                 Some (ctx\<lparr>ctx_queue := queue, ctx_event_count := ctx_event_count ctx + 1,
                   ctx_highest_slot := max (ctx_highest_slot ctx) (ev_slot e)\<rparr>)
               else
                 Some (ctx\<lparr>ctx_queue := queue, ctx_log := ctx_log ctx @
                   [(YUREI_LOG_WARN, ''Queue backpressure prevented enqueue of slot='' @ show_nat (unat (ev_slot e)))]\<rparr>)))"

lemma do_action_simps:
  "do_action push (Warn m) ctx = Some (ctx\<lparr>ctx_log := ctx_log ctx @ [m]\<rparr>)"
  "do_action push (Deliver e) ctx =
     (case push (ctx_queue ctx) e of
        None \<Rightarrow> None
      | Some (rc, queue) \<Rightarrow>
          if rc = 0 then
            Some (ctx\<lparr>ctx_queue := queue, ctx_event_count := ctx_event_count ctx + 1,
              ctx_highest_slot := max (ctx_highest_slot ctx) (ev_slot e)\<rparr>)
          else
            Some (ctx\<lparr>ctx_queue := queue, ctx_log := ctx_log ctx @
              [(YUREI_LOG_WARN, ''Queue backpressure prevented enqueue of slot='' @ show_nat (unat (ev_slot e)))]\<rparr>))"
  by (simp_all add: do_action_def)

lemma for_each_append: "for_each f (xs @ ys) s = Option.bind (for_each f xs s) (for_each f ys)"
  by (induction xs arbitrary: s) (simp_all split: option.splits)

lemma for_each_concat:
  assumes "\<And>x s. body x s = for_each act (acts x) s"
  shows "for_each body xs s = for_each act (concat (map acts xs)) s"
proof (induction xs arbitrary: s)
  case (Cons x xs)
  then show ?case by (simp add: for_each_append assms split: option.splits)
qed simp

lemma for_each_one: "for_each act [a] s = act a s"
  by (simp split: option.splits)

lemma enqueue_event_actions:
  "enqueue_event push config prog sig slot line ctx =
   for_each (do_action push) (line_actions config prog sig slot line) ctx"
  by (auto simp: enqueue_event_def line_actions_def line_payload_def line_event_def do_action_def zero_event_def
      Let_def max_def not_less split: option.splits)

lemma log_body_actions:
  "(if \<not> json_is_string cj item then Some ctx
    else case json_valuestring cj item of None \<Rightarrow> Some ctx
         | Some line \<Rightarrow> enqueue_event push config prog sig slot line ctx)
   = for_each (do_action push)
       (case string_of cj (Some item) of None \<Rightarrow> [] | Some line \<Rightarrow> line_actions config prog sig slot line) ctx"
  by (auto simp: string_of_def enqueue_event_actions split: option.splits)

lemma concat_map_filter:
  "concat (map (\<lambda>x. case f x of None \<Rightarrow> [] | Some y \<Rightarrow> g y) xs) = concat (map g (List.map_filter f xs))"
  by (induction xs) (simp_all add: List.map_filter_simps split: option.splits)

lemma process_logs_array_actions:
  "process_logs_array cj push config logs prog sig slot ctx =
   for_each (do_action push) (concat (map (line_actions config prog sig slot) (log_lines cj logs))) ctx"
proof (cases "\<exists>l. logs = Some l \<and> json_is_array cj l")
  case True
  then obtain l where l: "logs = Some l" "json_is_array cj l" by blast
  have "for_each (\<lambda>log ctx.
          if \<not> json_is_string cj log then Some ctx
          else case json_valuestring cj log of None \<Rightarrow> Some ctx
               | Some line \<Rightarrow> enqueue_event push config prog sig slot line ctx) js ctx =
        for_each (do_action push)
          (concat (map (\<lambda>log. case string_of cj (Some log) of None \<Rightarrow> []
             | Some line \<Rightarrow> line_actions config prog sig slot line) js)) ctx" for js
    by (rule for_each_concat) (rule log_body_actions)
  with l show ?thesis by (simp add: process_logs_array_def log_lines_def concat_map_filter)
next
  case False
  then show ?thesis by (auto simp: process_logs_array_def log_lines_def split: option.splits)
qed

lemma process_value_actions:
  "process_value_object cj oob push config fb v ctx =
   for_each (do_action push) (value_actions cj oob config fb v) ctx"
  by (simp add: process_value_object_def value_actions_def process_logs_array_actions Let_def)

lemma value_actions_slot:
  "value_actions cj oob config (slot_or cj oob (json_get cj v ''slot'') s) v = value_actions cj oob config s v"
  by (simp add: value_actions_def slot_or_def split: option.splits)

lemmas process_values_actions = for_each_concat [OF process_value_actions]

lemma process_result_actions:
  "process_result_object cj oob push config r ctx = for_each (do_action push) (result_actions cj oob config r) ctx"
  by (simp add: process_result_object_def result_actions_def process_value_actions process_values_actions
      value_actions_slot Let_def split: option.splits)

lemma handle_message_actions:
  "yurei_parser_handle_message cj oob push json config queue out =
   (case json_parse cj json of
      None \<Rightarrow> Some (- 1, queue, out, [(YUREI_LOG_WARN, ''Failed to parse JSON payload'')])
    | Some doc \<Rightarrow>
        map_option (\<lambda>ctx. (int (ctx_event_count ctx), ctx_queue ctx, map_option (\<lambda>_. ctx_highest_slot ctx) out, ctx_log ctx))
          (for_each (do_action push) (message_actions cj oob config json)
            \<lparr>ctx_queue = queue, ctx_highest_slot = (case out of None \<Rightarrow> 0 | Some h \<Rightarrow> h), ctx_event_count = 0, ctx_log = []\<rparr>))"
  by (auto simp: yurei_parser_handle_message_def message_actions_def document_actions_def params_actions_def
      test_opt_def process_result_actions process_values_actions Let_def split: option.splits)

section \<open>The parser as a client of the queue\<close>

locale parser_queue = event_sink push contents capacity closed inv
  for push :: "'q \<Rightarrow> YureiEvent \<Rightarrow> (int \<times> 'q) option"
    and contents :: "'q \<Rightarrow> YureiEvent list"
    and capacity :: "'q \<Rightarrow> nat"
    and closed :: "'q \<Rightarrow> bool"
    and inv :: "'q \<Rightarrow> bool"
begin

lemma actions_closed:
  assumes "inv (ctx_queue ctx)" and "closed (ctx_queue ctx)"
  shows "\<exists>l. for_each (do_action push) as ctx = Some (ctx\<lparr>ctx_log := l\<rparr>)"
  using assms
proof (induction as arbitrary: ctx)
  case Nil
  show ?case by (intro exI [of _ "ctx_log ctx"]) simp
next
  case (Cons a as)
  obtain m where m: "do_action push a ctx = Some (ctx\<lparr>ctx_log := ctx_log ctx @ [m]\<rparr>)"
    using Cons.prems by (cases a) (simp_all add: do_action_simps push_closed)
  from Cons.IH [of "ctx\<lparr>ctx_log := ctx_log ctx @ [m]\<rparr>"] Cons.prems show ?case by (simp add: m)
qed

lemma actions_open:
  assumes "inv (ctx_queue ctx)" and "\<not> closed (ctx_queue ctx)"
    and "length (contents (ctx_queue ctx)) + length (delivered as) \<le> capacity (ctx_queue ctx)"
  shows "\<exists>q'. for_each (do_action push) as ctx =
        Some \<lparr>ctx_queue = q', ctx_highest_slot = fold max (map ev_slot (delivered as)) (ctx_highest_slot ctx),
          ctx_event_count = ctx_event_count ctx + length (delivered as), ctx_log = ctx_log ctx @ warnings as\<rparr>
      \<and> contents q' = contents (ctx_queue ctx) @ delivered as \<and> capacity q' = capacity (ctx_queue ctx)
      \<and> \<not> closed q' \<and> inv q'"
  using assms
proof (induction as arbitrary: ctx)
  case Nil
  then show ?case by (intro exI [of _ "ctx_queue ctx"]) simp
next
  case (Cons a as)
  show ?case
  proof (cases a)
    case (Warn m)
    with Cons.IH [of "ctx\<lparr>ctx_log := ctx_log ctx @ [m]\<rparr>"] Cons.prems show ?thesis by (simp add: do_action_simps)
  next
    case (Deliver e)
    with Cons.prems have "length (contents (ctx_queue ctx)) \<noteq> capacity (ctx_queue ctx)" by auto
    then obtain rc q1 where p: "push (ctx_queue ctx) e = Some (rc, q1)"
      using push_waits [OF Cons.prems(1), of e] by (cases "push (ctx_queue ctx) e") auto
    note o = push_open [OF Cons.prems(1,2) p]
    let ?ctx = "ctx\<lparr>ctx_queue := q1, ctx_event_count := ctx_event_count ctx + 1,
                     ctx_highest_slot := max (ctx_highest_slot ctx) (ev_slot e)\<rparr>"
    have "length (contents (ctx_queue ?ctx)) + length (delivered as) \<le> capacity (ctx_queue ?ctx)"
      using o Cons.prems(3) Deliver by simp
    with Cons.IH [of ?ctx] o p Deliver show ?thesis by (simp add: do_action_simps max.commute)
  qed
qed

lemma actions_full:
  assumes "inv (ctx_queue ctx)" and "\<not> closed (ctx_queue ctx)"
    and "capacity (ctx_queue ctx) < length (contents (ctx_queue ctx)) + length (delivered as)"
  shows "for_each (do_action push) as ctx = None"
  using assms
proof (induction as arbitrary: ctx)
  case Nil
  then show ?case using inv_bound [of "ctx_queue ctx"] by simp
next
  case (Cons a as)
  show ?case
  proof (cases a)
    case (Warn m)
    with Cons.IH [of "ctx\<lparr>ctx_log := ctx_log ctx @ [m]\<rparr>"] Cons.prems show ?thesis by (simp add: do_action_simps)
  next
    case (Deliver e)
    show ?thesis
    proof (cases "push (ctx_queue ctx) e")
      case None
      with Deliver show ?thesis by (simp add: do_action_simps)
    next
      case (Some r)
      obtain rc q1 where r: "r = (rc, q1)" by (cases r)
      note o = push_open [OF Cons.prems(1,2) Some [unfolded r]]
      with Cons.prems(3) Deliver show ?thesis
        by (simp add: do_action_simps Some r) (intro Cons.IH; simp)
    qed
  qed
qed

lemma handle_message_open:
  assumes "inv q" and "\<not> closed q" and "json_parse cj json = Some doc"
    and "length (contents q) + length (delivered (message_actions cj oob config json)) \<le> capacity q"
  shows "\<exists>q'. yurei_parser_handle_message cj oob push json config q out =
        Some (int (length (delivered (message_actions cj oob config json))), q',
          map_option (fold max (map ev_slot (delivered (message_actions cj oob config json)))) out,
          warnings (message_actions cj oob config json))
      \<and> contents q' = contents q @ delivered (message_actions cj oob config json) \<and> capacity q' = capacity q
      \<and> \<not> closed q' \<and> inv q'"
  using actions_open [of "\<lparr>ctx_queue = q, ctx_highest_slot = (case out of None \<Rightarrow> 0 | Some h \<Rightarrow> h), ctx_event_count = 0,
      ctx_log = []\<rparr>" "message_actions cj oob config json"] assms
  by (cases out) (auto simp: handle_message_actions)

lemma handle_message_full:
  assumes "inv q" and "\<not> closed q" and "json_parse cj json = Some doc"
    and "capacity q < length (contents q) + length (delivered (message_actions cj oob config json))"
  shows "yurei_parser_handle_message cj oob push json config q out = None"
  using assms by (simp add: handle_message_actions actions_full)

lemma handle_message_closed:
  assumes "inv q" and "closed q" and "json_parse cj json = Some doc"
  shows "\<exists>log. yurei_parser_handle_message cj oob push json config q out = Some (0, q, out, log)"
proof -
  let ?ctx = "\<lparr>ctx_queue = q, ctx_highest_slot = (case out of None \<Rightarrow> 0 | Some h \<Rightarrow> h), ctx_event_count = 0, ctx_log = []\<rparr>"
  obtain l where "for_each (do_action push) (message_actions cj oob config json) ?ctx = Some (?ctx\<lparr>ctx_log := l\<rparr>)"
    using actions_closed [of ?ctx "message_actions cj oob config json"] assms by auto
  with assms show ?thesis by (cases out) (auto simp: handle_message_actions)
qed

end

interpretation parser_ring: parser_queue queue_push queue_contents q_capacity q_closed queue_inv
  by unfold_locales

section \<open>A document type for examples\<close>

text \<open>
  The hypotheses about cJSON below hold for this type of documents: \<open>json_tree parse\<close> is the
  record of its accessors for a parser \<open>parse\<close>.
\<close>

datatype json =
    JNull
  | JNumber rat
  | JString string
  | JArray "json list"
  | JObject "(string \<times> json) list"

fun is_JArray :: "json \<Rightarrow> bool" where
  "is_JArray (JArray js) = True" | "is_JArray _ = False"

fun is_JObject :: "json \<Rightarrow> bool" where
  "is_JObject (JObject kvs) = True" | "is_JObject _ = False"

fun is_JString :: "json \<Rightarrow> bool" where
  "is_JString (JString s) = True" | "is_JString _ = False"

fun is_JNumber :: "json \<Rightarrow> bool" where
  "is_JNumber (JNumber x) = True" | "is_JNumber _ = False"

fun json_lookup :: "json \<Rightarrow> string \<Rightarrow> json option" where
  "json_lookup (JObject kvs) k = map_of kvs k" | "json_lookup _ k = None"

fun json_elements :: "json \<Rightarrow> json list" where
  "json_elements (JArray js) = js" | "json_elements (JObject kvs) = map snd kvs" | "json_elements _ = []"

fun json_text :: "json \<Rightarrow> string option" where
  "json_text (JString s) = Some s" | "json_text _ = None"

fun json_double :: "json \<Rightarrow> rat" where
  "json_double (JNumber x) = x" | "json_double _ = 0"

definition json_tree :: "(string \<Rightarrow> json option) \<Rightarrow> json cjson" where
  "json_tree parse = \<lparr>json_parse = parse, json_is_array = is_JArray, json_is_object = is_JObject,
     json_is_string = is_JString, json_is_number = is_JNumber, json_get = json_lookup,
     json_children = json_elements, json_valuestring = json_text, json_valuedouble = json_double\<rparr>"

text \<open>A notification as the RPC node sends it: a slot, a signature and log lines, no program.\<close>

definition sample_notification :: json where
  "sample_notification =
     JObject [(''params'', JObject [(''result'', JObject
       [(''context'', JObject [(''slot'', JNumber 77)]),
        (''value'', JObject [(''signature'', JString ''5sig''),
           (''logs'', JArray [JString ''Program log: hi'', JString ''Program data: AQI='', JNull,
              JString ''Program data: Aw==''])])])])]"

definition sample_cj :: "json cjson" where
  "sample_cj = json_tree (\<lambda>t. if t = ''msg'' then Some sample_notification else None)"

definition sample_config :: YureiConfig where
  "sample_config = apply_defaults"

definition sample_parsed :: "YureiEvent list" where
  "sample_parsed =
     [\<lparr>ev_kind = YUREI_EVENT_KIND_PUMPFUN, ev_program_id = [], ev_signature = ''5sig'', ev_slot = 77,
       ev_data = [1, 2, 0], ev_data_len = 3\<rparr>,
      \<lparr>ev_kind = YUREI_EVENT_KIND_PUMPFUN, ev_program_id = [], ev_signature = ''5sig'', ev_slot = 77,
       ev_data = [3, 0, 0], ev_data_len = 3\<rparr>]"

lemma sample_pumpfun: "pumpfun_program sample_config = ''6EF8rrecthR5Dkzon8Nwu78hRvfCKubJ14M5uBEwF6P''"
  by (simp add: sample_config_def apply_defaults_def copy_string_def snprintf_str_def)

lemma sample_slot: "double_to_uint64 oob 77 = 77"
  by (simp add: double_to_uint64_def)

lemma sample_payloads:
  "decode_base64 ''AQI='' = Some [1, 2, 0]" "decode_base64 ''Aw=='' = Some [3, 0, 0]"
  by (simp_all add: decode_base64_groups base64_digit_def YUREI_EVENT_PAYLOAD_MAX_def isspace_def)

lemma sample_actions: "message_actions sample_cj oob sample_config ''msg'' = map Deliver sample_parsed"
  by (simp add: message_actions_def document_actions_def params_actions_def result_actions_def value_actions_def
      log_lines_def line_actions_def line_payload_def line_event_def string_of_def slot_or_def sample_cj_def
      json_tree_def sample_notification_def sample_parsed_def data_marker_def isspace_def sample_payloads
      sample_slot sample_pumpfun program_to_kind_def List.map_filter_simps)

section \<open>What the events look like\<close>

lemma in_delivered: "e \<in> set (delivered as) \<longleftrightarrow> Deliver e \<in> set as"
  by (induction as rule: delivered.induct) auto

lemma line_actions_event:
  assumes "Deliver e \<in> set (line_actions config prog sig slot line)"
  shows "\<exists>bytes. e = line_event config prog sig slot bytes \<and> length bytes \<le> YUREI_EVENT_PAYLOAD_MAX"
  using assms
  by (auto simp: line_actions_def decode_base64_groups Let_def split: option.splits if_splits)

lemma value_actions_event:
  assumes "Deliver e \<in> set (value_actions cj oob config fb v)"
  shows "\<exists>sig slot bytes. length bytes \<le> YUREI_EVENT_PAYLOAD_MAX
    \<and> e = line_event config (string_of cj (json_get cj v ''programId'')) sig slot bytes"
  using assms line_actions_event by (fastforce simp: value_actions_def split: if_splits)

lemma result_actions_event:
  assumes "Deliver e \<in> set (result_actions cj oob config r)"
  shows "\<exists>v fb. Deliver e \<in> set (value_actions cj oob config fb v)"
  using assms by (auto simp: result_actions_def Let_def split: option.splits if_splits)

lemma params_actions_cases:
  "params_actions cj oob config doc = [] \<or> (\<exists>r. params_actions cj oob config doc = result_actions cj oob config r)"
  by (auto simp: params_actions_def split: option.splits)

lemma document_actions_cases:
  "document_actions cj oob config doc = [] \<or> (\<exists>r. document_actions cj oob config doc = result_actions cj oob config r)
   \<or> (\<exists>js. document_actions cj oob config doc = concat (map (value_actions cj oob config 0) js))"
  using params_actions_cases [of cj oob config doc] by (auto simp: document_actions_def split: option.splits)

lemma message_actions_cases:
  "message_actions cj oob config json = [] \<or> (\<exists>r. message_actions cj oob config json = result_actions cj oob config r)
   \<or> (\<exists>js. message_actions cj oob config json = concat (map (value_actions cj oob config 0) js))"
  using document_actions_cases [of cj oob config]
  by (auto simp: message_actions_def split: option.splits)

lemma message_actions_event:
  assumes "Deliver e \<in> set (message_actions cj oob config json)"
  shows "\<exists>v fb. Deliver e \<in> set (value_actions cj oob config fb v)"
  using message_actions_cases [of cj oob config json] assms result_actions_event by fastforce

section \<open>What a node sends\<close>

text \<open>
  A \<open>logsNotification\<close>, in terms of the accessors of cJSON: the slot is in the context and
  cJSON has it as the double \<open>x\<close>; the value has a signature and log lines, and neither a slot
  nor a program.
\<close>

definition logs_notification :: "'j cjson \<Rightarrow> 'j \<Rightarrow> string \<Rightarrow> rat \<Rightarrow> string list \<Rightarrow> bool" where
  "logs_notification cj doc sig x lines =
     (json_get cj doc ''result'' = None
      \<and> (\<exists>params result ctx slot_item v sig_item logs.
           json_get cj doc ''params'' = Some params \<and> json_is_object cj params
         \<and> json_get cj params ''result'' = Some result \<and> json_is_object cj result
         \<and> json_get cj result ''context'' = Some ctx \<and> json_is_object cj ctx
         \<and> json_get cj ctx ''slot'' = Some slot_item \<and> json_is_number cj slot_item
         \<and> json_valuedouble cj slot_item = x
         \<and> json_get cj result ''value'' = Some v \<and> json_is_object cj v
         \<and> json_get cj v ''slot'' = None \<and> json_get cj v ''programId'' = None
         \<and> json_get cj v ''signature'' = Some sig_item \<and> json_is_string cj sig_item
         \<and> json_valuestring cj sig_item = Some sig
         \<and> json_get cj v ''logs'' = Some logs \<and> json_is_array cj logs
         \<and> map (\<lambda>j. string_of cj (Some j)) (json_children cj logs) = map Some lines))"

lemma map_filter_all: "map f xs = map Some ys \<Longrightarrow> List.map_filter f xs = ys"
proof (induction xs arbitrary: ys)
  case (Cons x xs)
  then show ?case by (cases ys) (auto simp: List.map_filter_simps)
qed (simp add: List.map_filter_simps)

lemma notification_actions:
  assumes "logs_notification cj doc sig x lines"
  shows "document_actions cj oob config doc
    = concat (map (line_actions config None (Some sig) (double_to_uint64 oob x)) lines)"
proof -
  obtain params result ctx slot_item v sig_item logs where j:
    "json_get cj doc ''result'' = None" "json_get cj doc ''params'' = Some params" "json_is_object cj params"
    "json_get cj params ''result'' = Some result" "json_is_object cj result"
    "json_get cj result ''context'' = Some ctx" "json_is_object cj ctx"
    "json_get cj ctx ''slot'' = Some slot_item" "json_is_number cj slot_item"
    "json_valuedouble cj slot_item = x" "json_get cj result ''value'' = Some v" "json_is_object cj v"
    "json_get cj v ''slot'' = None" "json_get cj v ''programId'' = None"
    "json_get cj v ''signature'' = Some sig_item" "json_is_string cj sig_item"
    "json_valuestring cj sig_item = Some sig" "json_get cj v ''logs'' = Some logs" "json_is_array cj logs"
    and l: "map (\<lambda>j. string_of cj (Some j)) (json_children cj logs) = map Some lines"
    using assms unfolding logs_notification_def by blast
  have ll: "log_lines cj (Some logs) = lines" using j(19) map_filter_all [OF l] by (simp add: log_lines_def)
  have s: "string_of cj (Some sig_item) = Some sig" "string_of cj None = None" using j(16,17) by (simp_all add: string_of_def)
  have n: "slot_or cj oob (Some slot_item) otherwise = double_to_uint64 oob x" "slot_or cj oob None otherwise = otherwise"
    for otherwise
    using j(9,10) by (simp_all add: slot_or_def)
  show ?thesis
    by (simp add: document_actions_def params_actions_def result_actions_def value_actions_def j(1-8,11-15,18) s n ll)
qed

text \<open>An integer that a double holds is read back.\<close>

lemma double_of_nat: "n < 2 ^ 64 \<Longrightarrow> double_to_uint64 oob (of_nat n) = of_nat n"
proof -
  assume "n < 2 ^ 64"
  then have "(of_nat n :: rat) < of_nat (2 ^ 64)" by (simp only: of_nat_less_iff)
  then show ?thesis by (simp add: double_to_uint64_def)
qed

section \<open>Properties\<close>

text \<open>
  C6. A message that parses, against the ring buffer: on a closed queue nothing is delivered
  and 0 is returned; on an open queue with room for all the events of the message exactly
  these are appended, in the order of the log lines, their number is returned, and the
  highest slot becomes the maximum of the old one and theirs; with less room the call waits
  for the consumer.
\<close>

theorem handle_message_delivers:
  assumes "queue_inv q" and "json_parse cj json = Some doc"
  shows "(q_closed q \<longrightarrow>
      (\<exists>msgs. yurei_parser_handle_message cj oob queue_push json config q out = Some (0, q, out, msgs)))
    \<and> (\<not> q_closed q
        \<and> length (queue_contents q) + length (delivered (message_actions cj oob config json)) \<le> q_capacity q \<longrightarrow>
      (\<exists>q'. yurei_parser_handle_message cj oob queue_push json config q out =
          Some (int (length (delivered (message_actions cj oob config json))), q',
            map_option (fold max (map ev_slot (delivered (message_actions cj oob config json)))) out,
            warnings (message_actions cj oob config json))
        \<and> queue_contents q' = queue_contents q @ delivered (message_actions cj oob config json)
        \<and> queue_inv q'))
    \<and> (\<not> q_closed q
        \<and> q_capacity q < length (queue_contents q) + length (delivered (message_actions cj oob config json)) \<longrightarrow>
      yurei_parser_handle_message cj oob queue_push json config q out = None)"
  using parser_ring.handle_message_closed [OF assms(1) _ assms(2)]
    parser_ring.handle_message_open [OF assms(1) _ assms(2)]
    parser_ring.handle_message_full [OF assms(1) _ assms(2)] by blast

definition empty_queue :: YureiEventQueue where
  "empty_queue = \<lparr>q_buffer = replicate 4 zero_event, q_capacity = 4, q_head = 0, q_tail = 0, q_size = 0,
     q_closed = False\<rparr>"

lemma empty_queue_facts: "queue_inv empty_queue" "queue_contents empty_queue = []" "\<not> q_closed empty_queue"
    "q_capacity empty_queue = 4"
  by (simp_all add: empty_queue_def queue_inv_def queue_contents_def)

lemma delivered_map: "delivered (map Deliver es) = es" "warnings (map Deliver es) = []"
  by (induction es) simp_all

lemma sample_delivered:
  "delivered (message_actions sample_cj oob sample_config ''msg'') = sample_parsed"
  "warnings (message_actions sample_cj oob sample_config ''msg'') = []"
  by (simp_all add: sample_actions delivered_map)

lemma sample_parsed_facts: "length sample_parsed = 2" "fold max (map ev_slot sample_parsed) h = max 77 h"
  by (simp_all add: sample_parsed_def)

lemma sample_parses: "json_parse sample_cj ''msg'' = Some sample_notification"
  by (simp add: sample_cj_def json_tree_def)

theorem handle_message_delivers_witness:
  "\<exists>q'. yurei_parser_handle_message sample_cj (\<lambda>x. 0) queue_push ''msg'' sample_config empty_queue (Some 70)
      = Some (2, q', Some 77, []) \<and> queue_contents q' = sample_parsed"
  using handle_message_delivers [OF empty_queue_facts(1) sample_parses, of "\<lambda>x. 0" sample_config "Some 70"]
  by (auto simp: empty_queue_facts sample_delivered sample_parsed_facts)

text \<open>What is in the queue after a successful call is what was there and the delivered events.\<close>

lemma handle_message_contents:
  assumes "queue_inv q" and "json_parse cj json = Some doc"
    and "yurei_parser_handle_message cj oob queue_push json config q out = Some (n, q', out', msgs)"
    and "e \<in> set (drop (length (queue_contents q)) (queue_contents q'))"
  shows "e \<in> set (delivered (message_actions cj oob config json))"
proof (cases "q_closed q")
  case True
  with parser_ring.handle_message_closed [OF assms(1) _ assms(2), of oob config out] assms(3,4) show ?thesis by auto
next
  case False
  have "length (queue_contents q) + length (delivered (message_actions cj oob config json)) \<le> q_capacity q"
    using parser_ring.handle_message_full [OF assms(1) False assms(2), of oob config out] assms(3)
    by (metis not_le option.distinct(1))
  from parser_ring.handle_message_open [OF assms(1) False assms(2) this, of out] assms(3,4) show ?thesis by auto
qed

text \<open>
  C29. Every event a message adds to the queue fits the arrays of \<open>YureiEvent\<close>, with the
  terminators of its strings, and its \<open>data_len\<close> is the number of payload bytes.
\<close>

theorem parsed_events_fit:
  assumes "queue_inv q" and "json_parse cj json = Some doc"
    and "yurei_parser_handle_message cj oob queue_push json config q out = Some (n, q', out', msgs)"
    and "e \<in> set (drop (length (queue_contents q)) (queue_contents q'))"
  shows "length (ev_program_id e) < 64 \<and> length (ev_signature e) < 128 \<and> ev_data_len e = length (ev_data e)
    \<and> ev_data_len e \<le> YUREI_EVENT_PAYLOAD_MAX"
proof -
  have "Deliver e \<in> set (message_actions cj oob config json)"
    using handle_message_contents [OF assms] by (simp add: in_delivered)
  then obtain v fb where "Deliver e \<in> set (value_actions cj oob config fb v)"
    using message_actions_event by blast
  then obtain sig bytes slot where "length bytes \<le> YUREI_EVENT_PAYLOAD_MAX"
    and "e = line_event config (string_of cj (json_get cj v ''programId'')) sig slot bytes"
    by (auto dest!: value_actions_event)
  then show ?thesis
    by (auto simp: line_event_def snprintf_str_def split: option.splits)
qed

lemma sample_run:
  "\<exists>q'. yurei_parser_handle_message sample_cj (\<lambda>x. 0) queue_push ''msg'' sample_config empty_queue out
      = Some (2, q', map_option (\<lambda>h. max 77 h) out, []) \<and> queue_contents q' = sample_parsed"
  using parser_ring.handle_message_open [OF empty_queue_facts(1,3) sample_parses, of "\<lambda>x. 0" sample_config out]
  by (cases out) (auto simp: empty_queue_facts sample_delivered sample_parsed_facts)

theorem parsed_events_fit_witness:
  "list_all (\<lambda>e. length (ev_signature e) < 128 \<and> ev_data_len e = length (ev_data e)) sample_parsed"
proof -
  obtain q' where q': "yurei_parser_handle_message sample_cj (\<lambda>x. 0) queue_push ''msg'' sample_config empty_queue None
      = Some (2, q', None, [])" "queue_contents q' = sample_parsed"
    using sample_run [of None] by auto
  show ?thesis
    using parsed_events_fit [OF empty_queue_facts(1) sample_parses q'(1)] q'(2)
    by (auto simp: empty_queue_facts list_all_iff)
qed

text \<open>
  C33. A notification whose value object has no string \<open>programId\<close>, which is how a node sends
  \<open>logsNotification\<close>, yields only events without a program identifier and of the kind that
  \<open>enqueue_event\<close> derives from the configured pump.fun program: pump.fun, whatever program
  the logs come from, when such a program is configured, and unknown when none is, even when
  a Raydium program is.
\<close>

theorem missing_program_is_pumpfun:
  assumes "queue_inv q" and "json_parse cj json = Some doc"
    and "json_get cj doc ''result'' = None" and "json_get cj doc ''params'' = Some p"
    and "json_get cj p ''result'' = Some r" and "json_get cj r ''value'' = Some v" and "json_is_object cj v"
    and "string_of cj (json_get cj v ''programId'') = None"
    and "yurei_parser_handle_message cj oob queue_push json config q out = Some (n, q', out', msgs)"
    and "e \<in> set (drop (length (queue_contents q)) (queue_contents q'))"
  shows "ev_kind e = (if pumpfun_program config = [] then YUREI_EVENT_KIND_UNKNOWN else YUREI_EVENT_KIND_PUMPFUN)
    \<and> ev_program_id e = []"
proof -
  have "Deliver e \<in> set (message_actions cj oob config json)"
    using handle_message_contents [OF assms(1,2,9,10)] by (simp add: in_delivered)
  then have "\<exists>fb. Deliver e \<in> set (value_actions cj oob config fb v)"
    using assms(2-7)
    by (cases "json_is_object cj p"; cases "json_is_object cj r")
       (auto simp: message_actions_def document_actions_def params_actions_def result_actions_def Let_def)
  then obtain sig bytes slot where "e = line_event config (string_of cj (json_get cj v ''programId'')) sig slot bytes"
    by (auto dest!: value_actions_event)
  then show ?thesis using assms(8) by (auto simp: line_event_def program_to_kind_def)
qed

theorem missing_program_is_pumpfun_witness:
  "list_all (\<lambda>e. ev_kind e = YUREI_EVENT_KIND_PUMPFUN \<and> ev_program_id e = []) sample_parsed"
proof -
  obtain q' where q': "yurei_parser_handle_message sample_cj (\<lambda>x. 0) queue_push ''msg'' sample_config empty_queue None
      = Some (2, q', None, [])" "queue_contents q' = sample_parsed"
    using sample_run [of None] by auto
  have doc: "json_get sample_cj sample_notification ''result'' = None"
    by (simp add: sample_cj_def json_tree_def sample_notification_def)
  show ?thesis
    unfolding list_all_iff using missing_program_is_pumpfun [OF empty_queue_facts(1) sample_parses doc _ _ _ _ _ q'(1)] q'(2)
    by (simp add: empty_queue_facts sample_pumpfun) (simp add: sample_cj_def json_tree_def sample_notification_def string_of_def)
qed

text \<open>
  C30. Slots are read through a double: every event that a notification adds to the queue has
  the slot that the JSON text spells, rounded to binary64 by the JSON parser, unchanged up to
  \<open>2 ^ 53\<close>; the slot after that becomes \<open>2 ^ 53\<close>.
\<close>

theorem slot_conversion_exact:
  assumes "queue_inv q" and "json_parse cj json = Some doc"
    and "logs_notification cj doc sig (dround (of_nat n)) lines"
    and "yurei_parser_handle_message cj oob queue_push json config q out = Some (k, q', out', msgs)"
    and "e \<in> set (drop (length (queue_contents q)) (queue_contents q'))"
  shows "(n \<le> 2 ^ 53 \<longrightarrow> ev_slot e = of_nat n) \<and> (n = 2 ^ 53 + 1 \<longrightarrow> ev_slot e = of_nat (2 ^ 53))"
proof -
  have "Deliver e \<in> set (message_actions cj oob config json)"
    using handle_message_contents [OF assms(1,2,4,5)] by (simp add: in_delivered)
  then obtain l where "Deliver e \<in> set (line_actions config None (Some sig) (double_to_uint64 oob (dround (of_nat n))) l)"
    using assms(2) notification_actions [OF assms(3), of oob config] by (auto simp: message_actions_def)
  from line_actions_event [OF this] have e: "ev_slot e = double_to_uint64 oob (dround (of_nat n))"
    by (auto simp: line_event_def)
  have "dround 9007199254740993 = 9007199254740992" by code_simp
  then have "double_to_uint64 oob (dround (of_nat (2 ^ 53 + 1))) = of_nat (2 ^ 53)"
    by (simp add: double_to_uint64_def)
  moreover have "n \<le> 2 ^ 53 \<Longrightarrow> double_to_uint64 oob (dround (of_nat n)) = of_nat n"
    using binary64.fl_nat [of n] double_of_nat [of n oob] by simp
  ultimately show ?thesis unfolding e by blast
qed

lemma sample_is_notification:
  "logs_notification sample_cj (JObject [(''params'', JObject [(''result'', JObject
       [(''context'', JObject [(''slot'', JNumber x)]), (''value'', JObject [(''signature'', JString sig),
         (''logs'', JArray (map JString lines))])])])]) sig x lines"
  by (simp add: logs_notification_def sample_cj_def json_tree_def string_of_def o_def)

text \<open>A text that spells the slot \<open>2 ^ 53 + 1\<close>, with one payload.\<close>

definition large_slot_cj :: "json cjson" where
  "large_slot_cj = json_tree (\<lambda>t. Some (JObject [(''params'', JObject [(''result'', JObject
       [(''context'', JObject [(''slot'', JNumber (dround (of_nat (2 ^ 53 + 1))))]),
        (''value'', JObject [(''signature'', JString ''5sig''), (''logs'', JArray [JString ''Program data: AQ==''])])])])]))"

theorem slot_conversion_exact_witness:
  "\<exists>q'. yurei_parser_handle_message large_slot_cj (\<lambda>x. 0) queue_push ''msg'' sample_config empty_queue None
      = Some (1, q', None, []) \<and> map ev_slot (queue_contents q') = [of_nat (2 ^ 53)]"
proof -
  let ?x = "dround (of_nat (2 ^ 53 + 1))" and ?lines = "[''Program data: AQ=='']"
  let ?as = "message_actions large_slot_cj (\<lambda>x. 0) sample_config ''msg''"
  let ?doc = "JObject [(''params'', JObject [(''result'', JObject
       [(''context'', JObject [(''slot'', JNumber ?x)]),
        (''value'', JObject [(''signature'', JString ''5sig''), (''logs'', JArray (map JString ?lines))])])])]"
  have p: "json_parse large_slot_cj ''msg'' = Some ?doc" by (simp add: large_slot_cj_def json_tree_def)
  have l: "logs_notification large_slot_cj ?doc ''5sig'' ?x ?lines"
    using sample_is_notification [of ?x "''5sig''" ?lines]
    by (simp add: logs_notification_def large_slot_cj_def sample_cj_def json_tree_def string_of_def)
  have as: "?as = [Deliver (line_event sample_config None (Some ''5sig'') (double_to_uint64 (\<lambda>x. 0) ?x) [1, 0, 0])]"
    using p notification_actions [OF l, of "\<lambda>x. 0" sample_config] padded_byte_decoded(1)
    by (simp add: message_actions_def line_actions_def line_payload_def data_marker_def isspace_def)
  obtain q' where q': "yurei_parser_handle_message large_slot_cj (\<lambda>x. 0) queue_push ''msg'' sample_config empty_queue None
      = Some (1, q', None, [])" "queue_contents q' = delivered ?as" "length (delivered ?as) = 1"
    using parser_ring.handle_message_open [OF empty_queue_facts(1,3) p, of "\<lambda>x. 0" sample_config None] as
    by (auto simp: empty_queue_facts)
  then obtain e where e: "queue_contents q' = [e]" by (auto simp: length_Suc_conv)
  have "ev_slot e = of_nat (2 ^ 53)"
    using slot_conversion_exact [OF empty_queue_facts(1) p l q'(1), of e] e by (simp add: empty_queue_facts)
  with q'(1) e show ?thesis by auto
qed

lemma do_action_highest:
  "do_action push a ctx = Some ctx' \<Longrightarrow> ctx_highest_slot ctx \<le> ctx_highest_slot ctx'"
  by (cases a) (auto simp: do_action_simps split: option.splits if_splits)

lemma actions_highest:
  "for_each (do_action push) as ctx = Some ctx' \<Longrightarrow> ctx_highest_slot ctx \<le> ctx_highest_slot ctx'"
  by (induction as arbitrary: ctx) (fastforce split: option.splits dest: do_action_highest)+

text \<open>
  Whatever the message and whatever the queue does, the highest slot a caller keeps never
  goes back, and the return value is -1 for a message that does not parse and otherwise a
  count.
\<close>

theorem highest_slot_monotone:
  assumes "yurei_parser_handle_message cj oob push json config q (Some h) = Some (rc, q', out', msgs)"
  shows "(\<exists>h'. out' = Some h' \<and> h \<le> h') \<and> (rc = - 1 \<longleftrightarrow> json_parse cj json = None) \<and> - 1 \<le> rc"
proof (cases "json_parse cj json")
  case None
  with assms show ?thesis by (auto simp: handle_message_actions)
next
  case (Some doc)
  let ?ctx = "\<lparr>ctx_queue = q, ctx_highest_slot = h, ctx_event_count = 0, ctx_log = []\<rparr>"
  from assms Some obtain ctx' where "for_each (do_action push) (message_actions cj oob config json) ?ctx = Some ctx'"
    and "rc = int (ctx_event_count ctx')" "out' = Some (ctx_highest_slot ctx')"
    by (auto simp: handle_message_actions)
  with actions_highest [of push _ ?ctx ctx'] Some show ?thesis by fastforce
qed

theorem highest_slot_monotone_witness:
  "\<exists>q' h'. yurei_parser_handle_message sample_cj (\<lambda>x. 0) queue_push ''msg'' sample_config empty_queue (Some 90)
      = Some (2, q', Some h', []) \<and> 90 \<le> h'"
  using sample_run [of "Some 90"] highest_slot_monotone [of sample_cj "\<lambda>x. 0" queue_push "''msg''" sample_config empty_queue 90]
  by fastforce

section \<open>Payload lines\<close>

lemma encode_chars:
  assumes "bs \<noteq> []" and "list_all (\<lambda>b. b < 256) bs"
  shows "base64_encode bs \<noteq> [] \<and> \<not> isspace (hd (base64_encode bs))"
    and "base64_encode_unpadded bs \<noteq> [] \<and> \<not> isspace (hd (base64_encode_unpadded bs))"
  using assms
  by (cases bs rule: base64_encode.cases; simp add: base64_encode_unpadded_def sextet_less)+

lemma line_payload_data:
  assumes "enc \<noteq> []" and "\<not> isspace (hd enc)"
  shows "line_payload (data_marker @ '' '' @ enc) = Some enc"
proof -
  have "dropWhile isspace (drop (length data_marker) (data_marker @ '' '' @ enc)) = enc"
    using dropWhile_none [of enc isspace] assms(2) by (simp add: isspace_def)
  moreover have "strstr (data_marker @ '' '' @ enc) data_marker = Some (data_marker @ '' '' @ enc)"
    by (rule strstr_here) (simp add: data_marker_def)
  ultimately show ?thesis using assms(1) by (simp add: line_payload_def Let_def)
qed

text \<open>
  A text that encodes some bytes, with padding or without, and the number of zero bytes that
  the decoder adds to them.
\<close>

definition encodes :: "string \<Rightarrow> u8 list \<Rightarrow> nat \<Rightarrow> bool" where
  "encodes enc bytes zeros =
     (enc = base64_encode_unpadded (map unat bytes) \<and> zeros = 0
      \<or> enc = base64_encode (map unat bytes) \<and> zeros = 2 * length bytes mod 3)"

lemma encoded_decodes:
  assumes "encodes enc bytes zeros"
  shows "decode_base64 enc =
    (if length bytes + zeros \<le> YUREI_EVENT_PAYLOAD_MAX then Some (bytes @ replicate zeros 0) else None)"
  using decode_groups_encode [OF bytes_list_all, of bytes] decode_groups_encode_unpadded [OF bytes_list_all, of bytes]
    map_of_nat_unat [of bytes] assms
  by (auto simp: encodes_def decode_base64_groups Let_def)

lemma encoded_line_actions:
  assumes "encodes enc bytes zeros" and "bytes \<noteq> []"
  shows "line_actions config prog sig slot (data_marker @ '' '' @ enc) =
    (if length bytes + zeros \<le> YUREI_EVENT_PAYLOAD_MAX
     then [Deliver (line_event config prog sig slot (bytes @ replicate zeros 0))]
     else [Warn (YUREI_LOG_WARN, ''Failed to decode base64 payload (signature='' @
        (case sig of None \<Rightarrow> [] | Some s \<Rightarrow> snprintf_str 128 s) @ '')'')])"
proof -
  have "enc \<noteq> [] \<and> \<not> isspace (hd enc)"
    using encode_chars [OF _ bytes_list_all, of bytes] assms by (auto simp: encodes_def)
  then have "line_payload (data_marker @ '' '' @ enc) = Some enc" by (intro line_payload_data) blast+
  with encoded_decodes [OF assms(1)] show ?thesis
    unfolding line_actions_def by (cases "length bytes + zeros \<le> YUREI_EVENT_PAYLOAD_MAX") simp_all
qed

text \<open>
  C22. From a program's log line to the queue: bytes that a program logged, one at least, in a
  line \<open>Program data: ...\<close>. Encoded without padding they are appended to an open queue with a
  free slot exactly, in an event with the signature, program and slot they were reported
  under. Encoded with padding, as the standard encoder writes it, they are followed by one or
  two zero bytes that were never logged, unless their number is divisible by three. Bytes
  that exceed 4096 with these zeros are not delivered: one warning is logged instead.
\<close>

theorem logged_bytes_reach_queue:
  assumes "queue_inv (ctx_queue ctx)" and "\<not> q_closed (ctx_queue ctx)"
    and "length (queue_contents (ctx_queue ctx)) < q_capacity (ctx_queue ctx)" and "bytes \<noteq> []"
    and "enc = base64_encode_unpadded (map unat bytes) \<and> zeros = 0
      \<or> enc = base64_encode (map unat bytes) \<and> zeros = 2 * length bytes mod 3"
  shows "\<exists>ctx'. enqueue_event queue_push config program_id signature slot (data_marker @ '' '' @ enc) ctx = Some ctx'
      \<and> (if length bytes + zeros \<le> YUREI_EVENT_PAYLOAD_MAX
         then queue_contents (ctx_queue ctx') = queue_contents (ctx_queue ctx)
                @ [line_event config program_id signature slot (bytes @ replicate zeros 0)]
           \<and> ctx_event_count ctx' = ctx_event_count ctx + 1
         else ctx_queue ctx' = ctx_queue ctx \<and> ctx_event_count ctx' = ctx_event_count ctx
           \<and> length (ctx_log ctx') = Suc (length (ctx_log ctx)))"
proof -
  let ?e = "line_event config program_id signature slot (bytes @ replicate zeros 0)"
  note a = encoded_line_actions [OF assms(5) [folded encodes_def] assms(4), of config program_id signature slot]
  show ?thesis
  proof (cases "length bytes + zeros \<le> YUREI_EVENT_PAYLOAD_MAX")
    case True
    with parser_ring.actions_open [of ctx "[Deliver ?e]"] assms(1-3) show ?thesis
      unfolding enqueue_event_actions a by auto
  next
    case False
    then show ?thesis unfolding enqueue_event_actions a by (simp add: do_action_simps)
  qed
qed

theorem logged_bytes_reach_queue_witness:
  "\<exists>ctx'. enqueue_event queue_push sample_config None (Some ''5sig'') 77
      (data_marker @ '' '' @ base64_encode (map unat [0xFF, 0 :: u8]))
      \<lparr>ctx_queue = empty_queue, ctx_highest_slot = 0, ctx_event_count = 0, ctx_log = []\<rparr> = Some ctx'
    \<and> map ev_data (queue_contents (ctx_queue ctx')) = [[0xFF, 0, 0]]"
  using logged_bytes_reach_queue [where bytes = "[0xFF, 0]" and zeros = 1 and config = sample_config and program_id = None
      and signature = "Some ''5sig''" and slot = 77 and enc = "base64_encode (map unat [0xFF, 0 :: u8])"
      and ctx = "\<lparr>ctx_queue = empty_queue, ctx_highest_slot = 0, ctx_event_count = 0, ctx_log = []\<rparr>"]
  by (auto simp: empty_queue_facts line_event_def YUREI_EVENT_PAYLOAD_MAX_def)

end
