(* ===== verification/Rate_Limiter.thy ===== *)
theory Rate_Limiter
  imports IEEE_Double
begin

text \<open>
  \<open>src/rate_limiter.c\<close> and \<open>include/rate_limiter.h\<close>: the token bucket in front of the HTTP
  requests. Token counts are doubles, so every operation is followed by a rounding \<open>fl\<close>:
  \<open>dround\<close> is the machine's, the identity is exact arithmetic. The lemmas are proved for every
  \<open>fl\<close> that satisfies \<open>fp_rounding\<close>. The readings of \<open>CLOCK_MONOTONIC\<close> are arguments.
  A wait consumes one reading per turn of its loop; if the given readings run out before the
  call returns, the result is \<open>None\<close>.
\<close>

section \<open>State\<close>

record timespec =
  tv_sec :: int
  tv_nsec :: int

record YureiRateLimiter =
  tokens_per_second :: u32
  tokens :: rat
  max_tokens :: rat
  last_refill :: timespec

abbreviation rps_of :: "YureiRateLimiter \<Rightarrow> rat" where
  "rps_of rl \<equiv> of_nat (unat (tokens_per_second rl))"

section \<open>Operations\<close>

text \<open>\<open>None\<close> is the return value -1, when \<open>pthread_mutex_init\<close> fails.\<close>

definition yurei_rate_limiter_init :: "(rat \<Rightarrow> rat) \<Rightarrow> timespec \<Rightarrow> bool \<Rightarrow> u32 \<Rightarrow> YureiRateLimiter option" where
  "yurei_rate_limiter_init fl now mutex_ok rps =
     (let m = fl (fl (of_nat (unat rps)) * 2);
          rl = \<lparr>tokens_per_second = rps, tokens = m, max_tokens = m, last_refill = now\<rparr>
      in if \<not> mutex_ok then None else Some rl)"

definition elapsed :: "(rat \<Rightarrow> rat) \<Rightarrow> timespec \<Rightarrow> timespec \<Rightarrow> rat" where
  "elapsed fl now prev =
     fl (fl (of_int (tv_sec now - tv_sec prev)) + fl (fl (of_int (tv_nsec now - tv_nsec prev)) / 1000000000))"

definition refill_tokens :: "(rat \<Rightarrow> rat) \<Rightarrow> timespec \<Rightarrow> YureiRateLimiter \<Rightarrow> YureiRateLimiter" where
  "refill_tokens fl now rl =
     (let new_tokens = fl (elapsed fl now (last_refill rl) * fl (rps_of rl));
          t = fl (tokens rl + new_tokens)
      in rl\<lparr>tokens := (if t > max_tokens rl then max_tokens rl else t), last_refill := now\<rparr>)"

definition yurei_rate_limiter_try_acquire ::
  "(rat \<Rightarrow> rat) \<Rightarrow> timespec \<Rightarrow> YureiRateLimiter \<Rightarrow> int \<times> YureiRateLimiter" where
  "yurei_rate_limiter_try_acquire fl now rl =
     (if tokens_per_second rl = 0 then (1, rl)
      else let rl1 = refill_tokens fl now rl in
        if tokens rl1 \<ge> 1 then (1, rl1\<lparr>tokens := fl (tokens rl1 - 1)\<rparr>) else (0, rl1))"

definition wait_sleep_us :: "(rat \<Rightarrow> rat) \<Rightarrow> YureiRateLimiter \<Rightarrow> u32" where
  "wait_sleep_us fl rl =
     (let wait_time = fl (fl (1 - tokens rl) / fl (rps_of rl));
          us = word_of_int \<lfloor>fl (wait_time * 1000000)\<rfloor> :: u32;
          us1 = (if us < 1000 then 1000 else us)
      in if us1 > 100000 then 100000 else us1)"

text \<open>The loop of \<open>yurei_rate_limiter_wait\<close>: the limiter, the sleeps and the unread clock values.\<close>

fun rate_limiter_wait_loop ::
  "(rat \<Rightarrow> rat) \<Rightarrow> timespec list \<Rightarrow> YureiRateLimiter \<Rightarrow> (YureiRateLimiter \<times> u32 list \<times> timespec list) option" where
  "rate_limiter_wait_loop fl [] rl = None"
| "rate_limiter_wait_loop fl (now # clock) rl =
     (let rl1 = refill_tokens fl now rl in
      if tokens rl1 \<ge> 1 then Some (rl1\<lparr>tokens := fl (tokens rl1 - 1)\<rparr>, [], clock)
      else map_option (\<lambda>(rl2, sleeps, rest). (rl2, wait_sleep_us fl rl1 # sleeps, rest))
             (rate_limiter_wait_loop fl clock rl1))"

definition yurei_rate_limiter_wait ::
  "(rat \<Rightarrow> rat) \<Rightarrow> timespec list \<Rightarrow> YureiRateLimiter \<Rightarrow> (YureiRateLimiter \<times> u32 list \<times> timespec list) option" where
  "yurei_rate_limiter_wait fl clock rl =
     (if tokens_per_second rl = 0 then Some (rl, [], clock) else rate_limiter_wait_loop fl clock rl)"

section \<open>The clock\<close>

definition ts_ns :: "timespec \<Rightarrow> int" where
  "ts_ns t = tv_sec t * 1000000000 + tv_nsec t"

definition ts_ok :: "timespec \<Rightarrow> bool" where
  "ts_ok t = (0 \<le> tv_nsec t \<and> tv_nsec t < 1000000000)"

text \<open>Readings that start no earlier than \<open>prev\<close> and are at least \<open>gap\<close> nanoseconds apart.\<close>

fun clock_from :: "int \<Rightarrow> timespec \<Rightarrow> timespec list \<Rightarrow> bool" where
  "clock_from gap prev [] = True"
| "clock_from gap prev (t # ts) = (ts_ok t \<and> ts_ns prev + gap \<le> ts_ns t \<and> clock_from gap t ts)"

section \<open>Invariant\<close>

definition limiter_inv :: "(rat \<Rightarrow> rat) \<Rightarrow> YureiRateLimiter \<Rightarrow> bool" where
  "limiter_inv fl rl = (max_tokens rl = rps_of rl * 2 \<and> 0 \<le> tokens rl \<and> tokens rl \<le> max_tokens rl
     \<and> fl (tokens rl) = tokens rl \<and> ts_ok (last_refill rl))"

lemma unat_u32_bound: "unat (w :: u32) \<le> 2 ^ 32"
  using unsigned_less [of w, where ?'a = nat] by simp

lemma u32_nonneg [simp]: "(0::rat) \<le> unsigned (w :: u32)"
  using of_nat_0_le_iff [of "unat w", where ?'a = rat] by simp

lemma borrow_cases:
  fixes s d :: int
  assumes "d < 1000000000"
  shows "0 \<le> s * 1000000000 + d \<Longrightarrow> s \<le> 0 \<Longrightarrow> s = 0 \<and> 0 \<le> d"
    and "1000000 \<le> s * 1000000000 + d \<Longrightarrow>
      (s = 0 \<and> 1000000 \<le> d) \<or> (s = 1 \<and> - 999000000 \<le> d) \<or> 2 \<le> s"
proof -
  have s: "s \<le> - 1 \<or> s = 0 \<or> s = 1 \<or> 2 \<le> s" by linarith
  show "s = 0 \<and> 0 \<le> d" if "0 \<le> s * 1000000000 + d" "s \<le> 0"
    using s assms that by (elim disjE) linarith+
  show "(s = 0 \<and> 1000000 \<le> d) \<or> (s = 1 \<and> - 999000000 \<le> d) \<or> 2 \<le> s"
    if "1000000 \<le> s * 1000000000 + d"
    using s assms that by (elim disjE) (linarith, simp_all)
qed

lemma u32_positive: "w \<noteq> 0 \<Longrightarrow> (1::rat) \<le> unsigned (w :: u32)"
proof -
  assume "w \<noteq> 0"
  then have "1 \<le> unat w" by (simp add: Suc_le_eq unat_gt_0)
  then have "(of_nat 1 :: rat) \<le> of_nat (unat w)" by (rule of_nat_mono)
  then show ?thesis by simp
qed

context fp_rounding
begin

lemma fl_rps: "fl (unsigned (w :: u32)) = unsigned w"
  using unat_u32_bound [of w] fl_nat [of "unat w"] by simp

lemma fl_rps2: "fl (unsigned (w :: u32) * 2) = unsigned w * 2"
  using fl_nat [of "unat w * 2"] unat_u32_bound [of w] by simp

lemma fl_nsec:
  assumes "ts_ok a" and "ts_ok b"
  shows "fl (of_int (tv_nsec a - tv_nsec b)) = of_int (tv_nsec a - tv_nsec b)"
  using assms by (intro fl_int) (auto simp: ts_ok_def)

lemma init_inv:
  "yurei_rate_limiter_init fl now True rps = Some rl \<Longrightarrow> ts_ok now \<Longrightarrow> limiter_inv fl rl"
  by (auto simp: yurei_rate_limiter_init_def limiter_inv_def fl_rps fl_rps2 Let_def)

text \<open>The difference of two readings of a monotone clock is never negative.\<close>

lemma elapsed_nonneg:
  assumes "ts_ok now" and "ts_ok prev" and "ts_ns prev \<le> ts_ns now"
  shows "0 \<le> elapsed fl now prev"
proof -
  let ?s = "tv_sec now - tv_sec prev" and ?d = "tv_nsec now - tv_nsec prev"
  have d: "- 1000000000 < ?d" "?d < 1000000000" using assms(1,2) by (auto simp: ts_ok_def)
  have sd: "0 \<le> ?s * 1000000000 + ?d" using assms(3) by (simp add: ts_ns_def algebra_simps)
  have "0 \<le> fl (of_int ?s) + fl (of_int ?d / 1000000000)"
  proof (cases "?s \<le> 0")
    case True
    with borrow_cases(1) [OF d(2) sd] have "?s = 0" "0 \<le> ?d" by auto
    then show ?thesis using fl_nonneg [of "of_int ?d / 1000000000"] by (simp add: fl_0)
  next
    case False
    then have "(1::rat) \<le> of_int ?s" by linarith
    then have "1 \<le> fl (of_int ?s)" by (intro fl_ge_rep fl_1)
    moreover have "(- 1000000000 :: rat) \<le> of_int ?d" using d(1) by linarith
    then have "- 1 \<le> (of_int ?d :: rat) / 1000000000" by (simp add: field_simps)
    then have "- 1 \<le> fl (of_int ?d / 1000000000)" using fl_int [of "- 1"] by (intro fl_ge_rep) simp_all
    ultimately show ?thesis by linarith
  qed
  then show ?thesis using fl_nsec [OF assms(1,2)] by (simp add: elapsed_def fl_nonneg)
qed

text \<open>A millisecond of the clock is at least 1/1024 of a second after rounding.\<close>

lemma elapsed_millisecond:
  assumes "ts_ok now" and "ts_ok prev" and "ts_ns prev + 1000000 \<le> ts_ns now"
  shows "1 / 1024 \<le> elapsed fl now prev"
proof -
  let ?s = "tv_sec now - tv_sec prev" and ?d = "tv_nsec now - tv_nsec prev"
  have d: "- 1000000000 < ?d" "?d < 1000000000" using assms(1,2) by (auto simp: ts_ok_def)
  have sd: "1000000 \<le> ?s * 1000000000 + ?d" using assms(3) by (simp add: ts_ns_def algebra_simps)
  have r: "fl (1 / 1024) = 1 / 1024" "fl (- 1023 / 1024) = - 1023 / 1024"
    using fl_dyadic [of 1 10] fl_dyadic [of "- 1023" 10] by simp_all
  have "1 / 1024 \<le> fl (of_int ?s) + fl (of_int ?d / 1000000000)"
  proof -
    consider "?s = 0" "1000000 \<le> ?d" | "?s = 1" "- 999000000 \<le> ?d" | "2 \<le> ?s"
      using borrow_cases(2) [OF d(2) sd] by auto
    then show ?thesis
    proof cases
      case 1
      from 1(2) have "(1000000 :: rat) \<le> of_int ?d" by linarith
      then have "1 / 1024 \<le> (of_int ?d :: rat) / 1000000000" by (simp add: field_simps)
      then have "1 / 1024 \<le> fl (of_int ?d / 1000000000)" using r(1) by (intro fl_ge_rep)
      with 1 show ?thesis by (simp add: fl_0)
    next
      case 2
      from 2(2) have "(- 999000000 :: rat) \<le> of_int ?d" by linarith
      then have "- 1023 / 1024 \<le> (of_int ?d :: rat) / 1000000000" by (simp add: field_simps)
      then have "- 1023 / 1024 \<le> fl (of_int ?d / 1000000000)" using r(2) by (intro fl_ge_rep)
      with 2 show ?thesis by (simp add: fl_1)
    next
      case 3
      then have "(2::rat) \<le> of_int ?s" by linarith
      then have "2 \<le> fl (of_int ?s)" using fl_int [of 2] by (intro fl_ge_rep) simp_all
      moreover have "(- 1000000000 :: rat) \<le> of_int ?d" using d(1) by linarith
      then have "- 1 \<le> (of_int ?d :: rat) / 1000000000" by (simp add: field_simps)
      then have "- 1 \<le> fl (of_int ?d / 1000000000)" using fl_int [of "- 1"] by (intro fl_ge_rep) simp_all
      ultimately show ?thesis by linarith
    qed
  qed
  then have "1 / 1024 \<le> fl (fl (of_int ?s) + fl (of_int ?d / 1000000000))"
    using r(1) by (intro fl_ge_rep)
  then show ?thesis using fl_nsec [OF assms(1,2)] by (simp add: elapsed_def)
qed

lemma refill_inv:
  assumes "limiter_inv fl rl" and "ts_ok now" and "ts_ns (last_refill rl) \<le> ts_ns now"
  shows "limiter_inv fl (refill_tokens fl now rl) \<and> tokens rl \<le> tokens (refill_tokens fl now rl)
    \<and> tokens_per_second (refill_tokens fl now rl) = tokens_per_second rl \<and> last_refill (refill_tokens fl now rl) = now"
proof -
  let ?n = "fl (elapsed fl now (last_refill rl) * fl (rps_of rl))"
  have "0 \<le> elapsed fl now (last_refill rl)"
    using assms by (intro elapsed_nonneg) (auto simp: limiter_inv_def)
  then have "0 \<le> ?n" by (simp add: fl_nonneg fl_rps)
  then have "tokens rl \<le> fl (tokens rl + ?n)"
    using assms(1) by (intro fl_ge_rep) (auto simp: limiter_inv_def)
  then show ?thesis
    using assms by (auto simp: refill_tokens_def Let_def limiter_inv_def fl_rps fl_rps2 fl_idem)
qed

lemma take_token_inv:
  assumes "limiter_inv fl rl" and "1 \<le> tokens rl"
  shows "limiter_inv fl (rl\<lparr>tokens := fl (tokens rl - 1)\<rparr>)"
proof -
  have "fl (tokens rl - 1) \<le> tokens rl"
    using assms by (intro fl_le_rep) (auto simp: limiter_inv_def)
  then show ?thesis using assms by (auto simp: limiter_inv_def fl_idem intro: fl_nonneg)
qed

lemma try_acquire_inv:
  assumes "limiter_inv fl rl" and "ts_ok now" and "ts_ns (last_refill rl) \<le> ts_ns now"
  shows "limiter_inv fl (snd (yurei_rate_limiter_try_acquire fl now rl))"
  using refill_inv [OF assms] assms(1) take_token_inv [of "refill_tokens fl now rl"]
  by (auto simp: yurei_rate_limiter_try_acquire_def Let_def)

lemma wait_loop_inv:
  assumes "rate_limiter_wait_loop fl clock rl = Some (rl', sleeps, rest)"
    and "limiter_inv fl rl" and "clock_from 0 (last_refill rl) clock"
  shows "limiter_inv fl rl'"
  using assms
proof (induction clock arbitrary: rl sleeps)
  case (Cons now clock)
  then have r: "limiter_inv fl (refill_tokens fl now rl)" "last_refill (refill_tokens fl now rl) = now"
    using refill_inv [of rl now] by auto
  show ?case
  proof (cases "1 \<le> tokens (refill_tokens fl now rl)")
    case True
    with Cons.prems(1) take_token_inv [OF r(1)] show ?thesis by (auto simp: Let_def)
  next
    case False
    with Cons.prems r show ?thesis by (auto simp: Let_def intro: Cons.IH)
  qed
qed simp

text \<open>A refill after a millisecond adds at least 1/1024 of a token, up to the burst.\<close>

lemma refill_progress:
  assumes "limiter_inv fl rl" and "tokens_per_second rl \<noteq> 0"
    and "ts_ok now" and "ts_ns (last_refill rl) + 1000000 \<le> ts_ns now"
    and "of_nat k / 1024 \<le> tokens rl" and "k < 1024"
  shows "of_nat (Suc k) / 1024 \<le> tokens (refill_tokens fl now rl)"
proof -
  have r1: "fl (1 / 1024) = 1 / 1024" using fl_dyadic [of 1 10] by simp
  have rk: "fl (of_nat (Suc k) / 1024) = of_nat (Suc k) / 1024"
    using fl_dyadic [of "int (Suc k)" 10] assms(6) by simp
  have rps: "1 \<le> rps_of rl" using u32_positive [OF assms(2)] by simp
  have "1 / 1024 \<le> elapsed fl now (last_refill rl)"
    using assms by (intro elapsed_millisecond) (auto simp: limiter_inv_def)
  then have "1 / 1024 * 1 \<le> elapsed fl now (last_refill rl) * rps_of rl"
    using rps by (intro mult_mono) auto
  then have "1 / 1024 \<le> fl (elapsed fl now (last_refill rl) * rps_of rl)"
    using r1 by (intro fl_ge_rep) simp_all
  then have "of_nat (Suc k) / 1024 \<le> tokens rl + fl (elapsed fl now (last_refill rl) * rps_of rl)"
    using assms(5) by (simp add: add_divide_distrib)
  then have "of_nat (Suc k) / 1024 \<le> fl (tokens rl + fl (elapsed fl now (last_refill rl) * rps_of rl))"
    using rk by (intro fl_ge_rep)
  moreover have "(of_nat (Suc k) :: rat) \<le> of_nat 1024" using assms(6) by (subst of_nat_le_iff) simp
  then have "of_nat (Suc k) / 1024 \<le> (1::rat)" by simp
  then have "of_nat (Suc k) / 1024 \<le> max_tokens rl"
    using assms(1) rps unfolding limiter_inv_def by linarith
  ultimately show ?thesis by (simp add: refill_tokens_def Let_def fl_rps)
qed

lemma wait_loop_returns:
  assumes "limiter_inv fl rl" and "tokens_per_second rl \<noteq> 0"
    and "clock_from 1000000 (last_refill rl) clock"
    and "of_nat k / 1024 \<le> tokens rl" and "k < 1024" and "1024 - k \<le> length clock"
  shows "\<exists>rl' sleeps rest. rate_limiter_wait_loop fl clock rl = Some (rl', sleeps, rest)
    \<and> length sleeps < 1024 - k"
  using assms
proof (induction clock arbitrary: rl k)
  case (Cons now clock)
  let ?r = "refill_tokens fl now rl"
  have c: "ts_ok now" "ts_ns (last_refill rl) + 1000000 \<le> ts_ns now" "clock_from 1000000 now clock"
    using Cons.prems(3) by auto
  have p: "of_nat (Suc k) / 1024 \<le> tokens ?r" using Cons.prems c by (intro refill_progress) auto
  have i: "limiter_inv fl ?r" "tokens_per_second ?r = tokens_per_second rl" "last_refill ?r = now"
    using refill_inv [OF Cons.prems(1) c(1)] c(2) by auto
  show ?case
  proof (cases "1 \<le> tokens ?r")
    case True
    then show ?thesis using Cons.prems(5) by (auto simp: Let_def)
  next
    case False
    have "Suc k < 1024"
    proof (rule ccontr)
      assume "\<not> Suc k < 1024"
      then have "Suc k = 1024" using Cons.prems(5) by simp
      with p False show False by simp
    qed
    moreover have "1024 - Suc k \<le> length clock" using Cons.prems(6) by simp
    ultimately obtain rl' sleeps rest where
      "rate_limiter_wait_loop fl clock ?r = Some (rl', sleeps, rest)" "length sleeps < 1024 - Suc k"
      using Cons.IH [of ?r "Suc k"] Cons.prems(2) i c(3) p by metis
    with False show ?thesis by (auto simp: Let_def)
  qed
qed simp

lemma wait_loop_returns_any:
  assumes "limiter_inv fl rl" and "tokens_per_second rl \<noteq> 0"
    and "ts_ok now" and "ts_ns (last_refill rl) \<le> ts_ns now"
    and "clock_from 1000000 now clock" and "1024 \<le> length clock"
  shows "\<exists>rl' sleeps rest. rate_limiter_wait_loop fl (now # clock) rl = Some (rl', sleeps, rest)
    \<and> length sleeps \<le> 1024"
proof -
  let ?r = "refill_tokens fl now rl"
  have i: "limiter_inv fl ?r" "tokens_per_second ?r = tokens_per_second rl" "last_refill ?r = now"
    using refill_inv [OF assms(1,3,4)] by auto
  then have "of_nat 0 / 1024 \<le> tokens ?r" by (simp add: limiter_inv_def)
  then show ?thesis
    using wait_loop_returns [of ?r clock 0] assms i by (cases "1 \<le> tokens ?r") (auto simp: Let_def)
qed

text \<open>The conversion to \<open>uint32_t\<close> in the wait loop is of a value in range.\<close>

lemma wait_time_range:
  assumes "0 \<le> tokens rl" and "tokens rl < 1" and "tokens_per_second rl \<noteq> 0"
  shows "0 \<le> fl (fl (fl (1 - tokens rl) / fl (rps_of rl)) * 1000000)
    \<and> fl (fl (fl (1 - tokens rl) / fl (rps_of rl)) * 1000000) \<le> 1000000"
proof -
  let ?w = "fl (fl (1 - tokens rl) / fl (rps_of rl))"
  have rps: "1 \<le> rps_of rl" using u32_positive [OF assms(3)] by simp
  have "0 \<le> fl (1 - tokens rl)" using assms(2) by (intro fl_nonneg) simp
  moreover have "fl (1 - tokens rl) \<le> 1" using assms(1) by (intro fl_le_rep fl_1) simp
  ultimately have q: "0 \<le> fl (1 - tokens rl) / rps_of rl" "fl (1 - tokens rl) / rps_of rl \<le> 1"
    using rps by (auto simp: divide_le_eq)
  then have w: "0 \<le> ?w" "?w \<le> 1"
    using fl_rps by (simp_all add: fl_nonneg fl_le_rep fl_1)
  then show ?thesis
    using fl_int [of 1000000] by (auto intro!: fl_nonneg fl_le_rep)
qed

text \<open>Attempts at one instant: no refill, one token each.\<close>

lemma elapsed_same: "elapsed fl t t = 0"
  by (simp add: elapsed_def fl_0)

lemma refill_same:
  assumes "limiter_inv fl rl"
  shows "refill_tokens fl (last_refill rl) rl = rl"
  using assms by (cases rl) (simp add: refill_tokens_def elapsed_same fl_0 limiter_inv_def)

lemma acquire_same_instant:
  assumes "limiter_inv fl rl" and "tokens_per_second rl \<noteq> 0" and "tokens rl = of_nat k" and "k \<le> 2 ^ 33"
  shows "yurei_rate_limiter_try_acquire fl (last_refill rl) rl
    = (if k = 0 then (0, rl) else (1, rl\<lparr>tokens := of_nat (k - 1)\<rparr>))"
proof -
  have "fl (of_nat k - 1) = of_nat (k - 1)" if "k \<noteq> 0"
    using that assms(4) fl_nat [of "k - 1"] by (simp add: of_nat_diff)
  then show ?thesis
    using assms by (simp add: yurei_rate_limiter_try_acquire_def refill_same Suc_le_eq)
qed

end

section \<open>Runs of attempts\<close>

text \<open>One attempt per clock reading: the tokens granted and the limiter afterwards.\<close>

fun acquire_run :: "(rat \<Rightarrow> rat) \<Rightarrow> timespec list \<Rightarrow> YureiRateLimiter \<Rightarrow> nat \<times> YureiRateLimiter" where
  "acquire_run fl [] rl = (0, rl)"
| "acquire_run fl (now # clock) rl =
     (case yurei_rate_limiter_try_acquire fl now rl of
        (rc, rl1) \<Rightarrow> (case acquire_run fl clock rl1 of (n, rl2) \<Rightarrow> (if rc = 1 then Suc n else n, rl2)))"

context fp_rounding
begin

lemma acquire_run_instant:
  assumes "limiter_inv fl rl" and "tokens_per_second rl \<noteq> 0" and "tokens rl = of_nat k" and "k \<le> 2 ^ 33"
  shows "acquire_run fl (replicate n (last_refill rl)) rl = (min n k, rl\<lparr>tokens := of_nat (k - n)\<rparr>)"
  using assms
proof (induction n arbitrary: rl k)
  case 0
  then show ?case by (cases rl) simp
next
  case (Suc n)
  let ?r = "if k = 0 then rl else rl\<lparr>tokens := of_nat (k - 1)\<rparr>"
  have "limiter_inv fl ?r"
    using Suc.prems fl_nat [of "k - 1"] by (auto simp: limiter_inv_def of_nat_diff)
  then have "acquire_run fl (replicate n (last_refill ?r)) ?r = (min n (k - 1), ?r\<lparr>tokens := of_nat (k - 1 - n)\<rparr>)"
    using Suc.prems by (intro Suc.IH) (auto simp: of_nat_diff)
  then show ?case
    using acquire_same_instant [OF Suc.prems] Suc.prems(3) by (cases k) (cases rl, simp_all)
qed

end



section \<open>Properties\<close>

definition t0 :: timespec where "t0 = \<lparr>tv_sec = 100, tv_nsec = 999000000\<rparr>"
definition t1 :: timespec where "t1 = \<lparr>tv_sec = 101, tv_nsec = 1000000\<rparr>"

lemma sample_clock: "ts_ok t0" "ts_ok t1" "ts_ns t0 + 1000000 \<le> ts_ns t1"
  by (simp_all add: ts_ok_def ts_ns_def t0_def t1_def)

definition sample_limiter :: YureiRateLimiter where
  "sample_limiter = \<lparr>tokens_per_second = 10, tokens = 1/2, max_tokens = 20, last_refill = t0\<rparr>"

lemma sample_limiter_inv: "limiter_inv dround sample_limiter"
  using binary64.fl_dyadic [of 1 1] sample_clock
  by (simp add: limiter_inv_def sample_limiter_def)

text \<open>
  C31. With IEEE doubles and a monotone clock, every operation keeps the token count between
  zero and the burst of twice the rate: initialisation, an attempt, and a wait.
\<close>

theorem limiter_bounds:
  "(ts_ok now \<and> yurei_rate_limiter_init dround now True rps = Some rl0 \<longrightarrow> limiter_inv dround rl0)
   \<and> (limiter_inv dround rl \<and> ts_ok now \<and> ts_ns (last_refill rl) \<le> ts_ns now \<longrightarrow>
        limiter_inv dround (snd (yurei_rate_limiter_try_acquire dround now rl)))
   \<and> (limiter_inv dround rl \<and> clock_from 0 (last_refill rl) clock
        \<and> yurei_rate_limiter_wait dround clock rl = Some (rl', sleeps, rest) \<longrightarrow> limiter_inv dround rl')"
  using binary64.init_inv binary64.try_acquire_inv binary64.wait_loop_inv
  by (auto simp: yurei_rate_limiter_wait_def split: if_splits)

theorem limiter_bounds_witness:
  "limiter_inv dround (snd (yurei_rate_limiter_try_acquire dround t1 sample_limiter))"
  using limiter_bounds [of t1 _ _ sample_limiter] sample_limiter_inv sample_clock
  by (simp add: sample_limiter_def)

text \<open>
  C18. A wait returns: if the clock is monotone and at least a millisecond passes between two
  readings of the loop, which is what \<open>usleep\<close> of at least 1000 microseconds gives, then
  1025 readings are enough for any non-zero rate, whatever the rounding of the doubles does.
\<close>

theorem limiter_wait_returns:
  assumes "limiter_inv dround rl" and "ts_ok now" and "ts_ns (last_refill rl) \<le> ts_ns now"
    and "clock_from 1000000 now clock" and "1024 \<le> length clock"
  shows "\<exists>rl' sleeps rest. yurei_rate_limiter_wait dround (now # clock) rl = Some (rl', sleeps, rest)
           \<and> length sleeps \<le> 1024"
  using binary64.wait_loop_returns_any [OF assms(1) _ assms(2-5)]
  by (auto simp: yurei_rate_limiter_wait_def simp del: rate_limiter_wait_loop.simps)

lemma clock_from_spaced:
  "0 \<le> tv_nsec a \<Longrightarrow> tv_nsec a < 1000000000 \<Longrightarrow>
    clock_from 1000000 a (map (\<lambda>i. a\<lparr>tv_sec := tv_sec a + int i\<rparr>) [1..<n])"
proof (induction n arbitrary: a)
  case (Suc n)
  have "[1..<Suc n] = (if n = 0 then [] else 1 # map Suc [1..<n])"
    by (simp add: map_Suc_upt upt_conv_Cons)
  moreover have "map (\<lambda>i. a\<lparr>tv_sec := tv_sec a + int (Suc i)\<rparr>) [1..<n]
      = map (\<lambda>i. (a\<lparr>tv_sec := tv_sec a + 1\<rparr>)\<lparr>tv_sec := tv_sec (a\<lparr>tv_sec := tv_sec a + 1\<rparr>) + int i\<rparr>) [1..<n]"
    by simp
  ultimately show ?case
    using Suc.IH [of "a\<lparr>tv_sec := tv_sec a + 1\<rparr>"] Suc.prems
    by (simp add: o_def ts_ok_def ts_ns_def add.assoc)
qed simp

theorem limiter_wait_returns_witness:
  "\<exists>rl' sleeps rest. yurei_rate_limiter_wait dround
     (t1 # map (\<lambda>i. t1\<lparr>tv_sec := tv_sec t1 + int i\<rparr>) [1..<1025]) sample_limiter = Some (rl', sleeps, rest)
     \<and> length sleeps \<le> 1024"
proof (rule limiter_wait_returns)
  show "clock_from 1000000 t1 (map (\<lambda>i. t1\<lparr>tv_sec := tv_sec t1 + int i\<rparr>) [1..<1025])"
    by (rule clock_from_spaced) (simp_all add: t1_def)
qed (use sample_limiter_inv sample_clock in \<open>simp_all add: sample_limiter_def\<close>)

text \<open>
  Between two attempts of the wait loop the thread sleeps the time until the next token,
  in whole microseconds, but at least 1 and at most 100 milliseconds; the conversion of the
  double to \<open>uint32_t\<close> is always of a value in range.
\<close>

theorem limiter_sleep_bounds:
  assumes "limiter_inv dround rl" and "tokens rl < 1" and "tokens_per_second rl \<noteq> 0"
  shows "\<exists>us. us = \<lfloor>dround (dround (dround (1 - tokens rl) / dround (rps_of rl)) * 1000000)\<rfloor>
      \<and> 0 \<le> us \<and> us \<le> 1000000
      \<and> uint (wait_sleep_us dround rl) = max 1000 (min 100000 us)"
proof -
  let ?x = "dround (dround (dround (1 - tokens rl) / dround (rps_of rl)) * 1000000)"
  have r: "0 \<le> ?x" "?x \<le> 1000000"
    using binary64.wait_time_range [of rl] assms by (auto simp: limiter_inv_def)
  then have us: "0 \<le> \<lfloor>?x\<rfloor>" "\<lfloor>?x\<rfloor> \<le> 1000000"
    by (auto simp: le_floor_iff floor_le_iff)
  then have u: "uint (word_of_int \<lfloor>?x\<rfloor> :: u32) = \<lfloor>?x\<rfloor>"
    by (simp add: uint_word_of_int)
  have "uint (wait_sleep_us dround rl) = max 1000 (min 100000 \<lfloor>?x\<rfloor>)"
    using u us by (auto simp: wait_sleep_us_def Let_def word_less_def)
  with us show ?thesis by blast
qed

theorem limiter_sleep_bounds_witness:
  "uint (wait_sleep_us dround sample_limiter) = 50000"
proof -
  have "\<lfloor>dround (dround (dround (1 - tokens sample_limiter) / dround (rps_of sample_limiter)) * 1000000)\<rfloor> = 50000"
    by code_simp
  with limiter_sleep_bounds [OF sample_limiter_inv] show ?thesis
    by (simp add: sample_limiter_def)
qed

text \<open>
  A fresh limiter grants a burst of exactly twice the rate: of any number of attempts
  before the clock moves, the first \<open>2 * rps\<close> succeed and the others fail.
\<close>

theorem limiter_burst:
  assumes "yurei_rate_limiter_init dround now True rps = Some rl" and "ts_ok now" and "rps \<noteq> 0"
  shows "fst (acquire_run dround (replicate n now) rl) = min n (2 * unat rps)"
proof -
  have i: "limiter_inv dround rl" using assms(1,2) by (rule binary64.init_inv)
  have rl: "tokens_per_second rl = rps" "last_refill rl = now" "tokens rl = of_nat (2 * unat rps)"
    using assms(1) i by (auto simp: yurei_rate_limiter_init_def Let_def limiter_inv_def)
  have "2 * unat rps \<le> 2 ^ 33" using unat_u32_bound [of rps] by simp
  with binary64.acquire_run_instant [OF i _ rl(3)] assms(3) rl show ?thesis by simp
qed

theorem limiter_burst_witness:
  "fst (acquire_run dround (replicate 3 t0) (the (yurei_rate_limiter_init dround t0 True 1))) = 2"
  using limiter_burst [of t0 1 "the (yurei_rate_limiter_init dround t0 True 1)" 3] sample_clock
  by (simp add: yurei_rate_limiter_init_def Let_def)



end
