(* ===== verification/Metrics.thy ===== *)
theory Metrics
  imports IEEE_Double Logging
begin

text \<open>
  \<open>src/metrics.c\<close> and \<open>include/metrics.h\<close>: the atomic counters, the compare-and-exchange
  loops that maintain the extreme latencies, and the summary that is logged. Counters are
  64-bit words and wrap. The first part treats the loops under any interleaving of any number
  of threads; the second the effect of each call.
\<close>

section \<open>The compare-and-exchange loop\<close>

text \<open>
  One thread of \<open>while (better(v, current)) if (CAS_weak(&mem, &current, v)) break;\<close> has its
  value \<open>v\<close>, and inside the loop the value it read last. A weak exchange may fail even when
  the memory holds the expected value; a failure loads the memory into \<open>current\<close>.
\<close>

datatype 'v cas_pc =
    CasStart 'v
  | CasLoop 'v 'v
  | CasDone 'v

fun cas_value :: "'v cas_pc \<Rightarrow> 'v" where
  "cas_value (CasStart v) = v"
| "cas_value (CasLoop v c) = v"
| "cas_value (CasDone v) = v"

record 'v cas_state =
  cas_mem :: 'v
  cas_threads :: "'v cas_pc list"

inductive cas_step :: "('v \<Rightarrow> 'v \<Rightarrow> bool) \<Rightarrow> 'v cas_state \<Rightarrow> 'v cas_state \<Rightarrow> bool"
  for better :: "'v \<Rightarrow> 'v \<Rightarrow> bool" where
  cas_load: "i < length (cas_threads s) \<Longrightarrow> cas_threads s ! i = CasStart v \<Longrightarrow>
    cas_step better s (s\<lparr>cas_threads := (cas_threads s)[i := CasLoop v (cas_mem s)]\<rparr>)"
| cas_leave: "i < length (cas_threads s) \<Longrightarrow> cas_threads s ! i = CasLoop v c \<Longrightarrow> \<not> better v c \<Longrightarrow>
    cas_step better s (s\<lparr>cas_threads := (cas_threads s)[i := CasDone v]\<rparr>)"
| cas_store: "i < length (cas_threads s) \<Longrightarrow> cas_threads s ! i = CasLoop v c \<Longrightarrow> better v c \<Longrightarrow>
    cas_mem s = c \<Longrightarrow>
    cas_step better s (s\<lparr>cas_mem := v, cas_threads := (cas_threads s)[i := CasDone v]\<rparr>)"
| cas_fail: "i < length (cas_threads s) \<Longrightarrow> cas_threads s ! i = CasLoop v c \<Longrightarrow> better v c \<Longrightarrow>
    cas_step better s (s\<lparr>cas_threads := (cas_threads s)[i := CasLoop v (cas_mem s)]\<rparr>)"

inductive cas_reachable :: "('v \<Rightarrow> 'v \<Rightarrow> bool) \<Rightarrow> 'v \<Rightarrow> 'v list \<Rightarrow> 'v cas_state \<Rightarrow> bool"
  for better :: "'v \<Rightarrow> 'v \<Rightarrow> bool" and m0 :: 'v and vs :: "'v list" where
  cas_init: "cas_reachable better m0 vs \<lparr>cas_mem = m0, cas_threads = map CasStart vs\<rparr>"
| cas_next: "cas_reachable better m0 vs s \<Longrightarrow> cas_step better s t \<Longrightarrow> cas_reachable better m0 vs t"

text \<open>The contract of the comparison: a strict linear order, in either direction.\<close>

locale cas_order =
  fixes better :: "'v \<Rightarrow> 'v \<Rightarrow> bool"
  assumes better_irrefl: "\<not> better a a"
    and better_trans: "better a b \<Longrightarrow> better b c \<Longrightarrow> better a c"
    and better_total: "a \<noteq> b \<Longrightarrow> better a b \<or> better b a"
begin

lemma not_better_trans: "\<not> better a b \<Longrightarrow> \<not> better b c \<Longrightarrow> \<not> better a c"
  by (metis better_total better_trans)

lemma better_not: "better a b \<Longrightarrow> \<not> better b a"
  using better_trans better_irrefl by blast

end

text \<open>
  The invariant: the memory holds the initial value or a thread's and only improves; a value a
  thread has read is never better than the memory, nor is a finished thread's value.
\<close>

fun cas_pc_ok :: "('v \<Rightarrow> 'v \<Rightarrow> bool) \<Rightarrow> 'v \<Rightarrow> 'v cas_pc \<Rightarrow> bool" where
  "cas_pc_ok better m (CasStart v) = True"
| "cas_pc_ok better m (CasLoop v c) = (\<not> better c m)"
| "cas_pc_ok better m (CasDone v) = (\<not> better v m)"

definition cas_inv :: "('v \<Rightarrow> 'v \<Rightarrow> bool) \<Rightarrow> 'v \<Rightarrow> 'v list \<Rightarrow> 'v cas_state \<Rightarrow> bool" where
  "cas_inv better m0 vs s = (map cas_value (cas_threads s) = vs \<and> cas_mem s \<in> insert m0 (set vs)
     \<and> \<not> better m0 (cas_mem s) \<and> list_all (cas_pc_ok better (cas_mem s)) (cas_threads s))"

lemma map_cas_value_update:
  assumes "i < length ts" and "cas_value pc = cas_value (ts ! i)"
  shows "map cas_value (ts[i := pc]) = map cas_value ts"
  using assms by (metis length_map list_update_id map_update nth_map)

lemma list_all_update: "list_all P xs \<Longrightarrow> P x \<Longrightarrow> list_all P (xs[i := x])"
  using set_update_subset_insert [of xs i x] by (auto simp: list_all_iff)

context cas_order
begin

lemma cas_pc_ok_mono: "better v m \<Longrightarrow> cas_pc_ok better m pc \<Longrightarrow> cas_pc_ok better v pc"
  by (cases pc) (auto dest: better_trans)

lemma inv_move:
  assumes "cas_inv better m0 vs s" and "i < length (cas_threads s)"
    and "cas_value pc = cas_value (cas_threads s ! i)" and "cas_pc_ok better (cas_mem s) pc"
  shows "cas_inv better m0 vs (s\<lparr>cas_threads := (cas_threads s)[i := pc]\<rparr>)"
  using assms by (simp add: cas_inv_def map_cas_value_update list_all_update)

lemma inv_store:
  assumes "cas_inv better m0 vs s" and "i < length (cas_threads s)" and "cas_threads s ! i = CasLoop v c"
    and "better v c" and "cas_mem s = c"
  shows "cas_inv better m0 vs (s\<lparr>cas_mem := v, cas_threads := (cas_threads s)[i := CasDone v]\<rparr>)"
proof -
  have "cas_value (cas_threads s ! i) \<in> set (map cas_value (cas_threads s))"
    using assms(2) by simp
  then have "v \<in> set vs" using assms(1,3) unfolding cas_inv_def by simp
  moreover have "list_all (cas_pc_ok better v) (cas_threads s)"
    using assms cas_pc_ok_mono [of v c] by (auto simp: cas_inv_def list_all_iff)
  ultimately show ?thesis
    using assms better_trans better_irrefl
    by (auto simp: cas_inv_def map_cas_value_update intro: list_all_update)
qed

lemma inv_step: "cas_step better s t \<Longrightarrow> cas_inv better m0 vs s \<Longrightarrow> cas_inv better m0 vs t"
proof (induction rule: cas_step.induct)
  case (cas_leave i s v c)
  then have "cas_pc_ok better (cas_mem s) (CasLoop v c)"
    unfolding cas_inv_def list_all_iff by (metis nth_mem)
  with cas_leave show ?case using not_better_trans by (intro inv_move) auto
qed (auto intro: inv_move inv_store simp: better_irrefl)

lemma reachable_inv: "cas_reachable better m0 vs s \<Longrightarrow> cas_inv better m0 vs s"
proof (induction rule: cas_reachable.induct)
  case cas_init
  show ?case by (simp add: cas_inv_def better_irrefl o_def list_all_iff)
qed (rule inv_step)

text \<open>When every thread has finished, the memory holds the best of all the values.\<close>

lemma all_done_best:
  assumes "cas_reachable better m0 vs s" and "list_all (\<lambda>pc. \<exists>v. pc = CasDone v) (cas_threads s)"
  shows "cas_mem s \<in> insert m0 (set vs) \<and> list_all (\<lambda>v. \<not> better v (cas_mem s)) (m0 # vs)"
proof -
  have inv: "cas_inv better m0 vs s" using assms(1) by (rule reachable_inv)
  have "\<not> better (cas_value pc) (cas_mem s)" if "pc \<in> set (cas_threads s)" for pc
    using inv assms(2) that by (force simp: cas_inv_def list_all_iff)
  then have "list_all (\<lambda>v. \<not> better v (cas_mem s)) (map cas_value (cas_threads s))"
    by (simp add: list_all_iff)
  with inv show ?thesis by (simp add: cas_inv_def)
qed

text \<open>A thread that is alone in the loop leaves the better of the two values.\<close>

lemma alone_better:
  assumes "cas_reachable better m0 [v] s" and "list_all (\<lambda>pc. \<exists>v. pc = CasDone v) (cas_threads s)"
  shows "cas_mem s = (if better v m0 then v else m0)"
  using all_done_best [OF assms] better_irrefl better_total by auto

end

interpretation cas_min: cas_order "(<) :: u64 \<Rightarrow> u64 \<Rightarrow> bool"
  by unfold_locales auto

interpretation cas_max: cas_order "(>) :: u64 \<Rightarrow> u64 \<Rightarrow> bool"
  by unfold_locales auto

text \<open>
  However the threads that record latencies interleave, and however often a weak exchange
  fails spuriously, once they have all left their loops the stored minimum is the least, and
  the stored maximum the greatest, of the initial value and all recorded latencies.
\<close>

theorem cas_extremes:
  "(cas_reachable (<) m0 vs s \<and> list_all (\<lambda>pc. \<exists>v. pc = CasDone v) (cas_threads s)
      \<longrightarrow> cas_mem s = Min (insert m0 (set vs)))
   \<and> (cas_reachable (>) m0 vs s \<and> list_all (\<lambda>pc. \<exists>v. pc = CasDone v) (cas_threads s)
      \<longrightarrow> cas_mem s = Max (insert (m0 :: u64) (set vs)))"
proof (intro conjI impI; elim conjE)
  assume "cas_reachable (<) m0 vs s" "list_all (\<lambda>pc. \<exists>v. pc = CasDone v) (cas_threads s)"
  from cas_min.all_done_best [OF this] show "cas_mem s = Min (insert m0 (set vs))"
    by (intro Min_eqI [symmetric]) (auto simp: list_all_iff not_less)
next
  assume "cas_reachable (>) m0 vs s" "list_all (\<lambda>pc. \<exists>v. pc = CasDone v) (cas_threads s)"
  from cas_max.all_done_best [OF this] show "cas_mem s = Max (insert m0 (set vs))"
    by (intro Max_eqI [symmetric]) (auto simp: list_all_iff not_less)
qed

text \<open>A run in which the second thread's first exchange fails because the first stored.\<close>

theorem cas_extremes_witness:
  "\<exists>s. cas_reachable (<) (9::u64) [5, 3] s \<and> cas_mem s = Min {9, 5, 3}"
proof -
  let ?st = "\<lambda>m ts. \<lparr>cas_mem = (m::u64), cas_threads = ts\<rparr>"
  have r0: "cas_reachable (<) 9 [5, 3] (?st 9 [CasStart 5, CasStart 3])"
    using cas_init [of "(<)" "9::u64" "[5, 3]"] by simp
  have "cas_step (<) (?st 9 [CasStart 5, CasStart 3]) (?st 9 [CasLoop 5 9, CasStart 3])"
    using cas_load [of 0 "?st 9 [CasStart 5, CasStart 3]" 5] by simp
  with r0 have r1: "cas_reachable (<) 9 [5, 3] (?st 9 [CasLoop 5 9, CasStart 3])" by (rule cas_next)
  have "cas_step (<) (?st 9 [CasLoop 5 9, CasStart 3]) (?st 9 [CasLoop 5 9, CasLoop 3 9])"
    using cas_load [of 1 "?st 9 [CasLoop 5 9, CasStart 3]" 3] by simp
  with r1 have r2: "cas_reachable (<) 9 [5, 3] (?st 9 [CasLoop 5 9, CasLoop 3 9])" by (rule cas_next)
  have "cas_step (<) (?st 9 [CasLoop 5 9, CasLoop 3 9]) (?st 5 [CasDone 5, CasLoop 3 9])"
    using cas_store [of 0 "?st 9 [CasLoop 5 9, CasLoop 3 9]" 5 9 "(<)"] by simp
  with r2 have r3: "cas_reachable (<) 9 [5, 3] (?st 5 [CasDone 5, CasLoop 3 9])" by (rule cas_next)
  have "cas_step (<) (?st 5 [CasDone 5, CasLoop 3 9]) (?st 5 [CasDone 5, CasLoop 3 5])"
    using cas_fail [of 1 "?st 5 [CasDone 5, CasLoop 3 9]" 3 9 "(<)"] by simp
  with r3 have r4: "cas_reachable (<) 9 [5, 3] (?st 5 [CasDone 5, CasLoop 3 5])" by (rule cas_next)
  have "cas_step (<) (?st 5 [CasDone 5, CasLoop 3 5]) (?st 3 [CasDone 5, CasDone 3])"
    using cas_store [of 1 "?st 5 [CasDone 5, CasLoop 3 5]" 3 5 "(<)"] by simp
  with r4 have r5: "cas_reachable (<) 9 [5, 3] (?st 3 [CasDone 5, CasDone 3])" by (rule cas_next)
  with cas_extremes [of 9 "[5, 3]" "?st 3 [CasDone 5, CasDone 3]"] show ?thesis by auto
qed

section \<open>The counters\<close>

record YureiMetrics =
  requests_total :: u64
  requests_success :: u64
  requests_failed :: u64
  events_processed :: u64
  latency_sum_us :: u64
  latency_count :: u64
  latency_min_us :: u64
  latency_max_us :: u64
  bytes_received :: u64
  ws_reconnects :: u64

definition UINT64_MAX :: u64 where
  "UINT64_MAX = - 1"

text \<open>\<open>memset\<close> to zero, then the minimum: the state the first call of a client sees.\<close>

definition metrics_zero :: YureiMetrics where
  "metrics_zero = \<lparr>requests_total = 0, requests_success = 0, requests_failed = 0, events_processed = 0,
     latency_sum_us = 0, latency_count = 0, latency_min_us = 0, latency_max_us = 0, bytes_received = 0,
     ws_reconnects = 0\<rparr>"

text \<open>
  Every operation takes a pointer that may be \<open>NULL\<close>, and then does nothing. The loop that
  \<open>cas_step\<close> describes has, for a thread that runs alone, the effect of \<open>cas_update\<close>
  (lemma \<open>alone_better\<close>); \<open>cas_extremes\<close> is the effect of several.
\<close>

definition cas_update :: "('v \<Rightarrow> 'v \<Rightarrow> bool) \<Rightarrow> 'v \<Rightarrow> 'v \<Rightarrow> 'v" where
  "cas_update better v mem = (if better v mem then v else mem)"

definition yurei_metrics_init :: "YureiMetrics option \<Rightarrow> YureiMetrics option" where
  "yurei_metrics_init = map_option (\<lambda>_. metrics_zero\<lparr>latency_min_us := UINT64_MAX\<rparr>)"

definition yurei_metrics_request :: "bool \<Rightarrow> u64 \<Rightarrow> YureiMetrics option \<Rightarrow> YureiMetrics option" where
  "yurei_metrics_request success latency_us =
     map_option (\<lambda>m.
       let m = m\<lparr>requests_total := requests_total m + 1\<rparr>;
           m = (if success then m\<lparr>requests_success := requests_success m + 1\<rparr>
                else m\<lparr>requests_failed := requests_failed m + 1\<rparr>);
           m = m\<lparr>latency_sum_us := latency_sum_us m + latency_us\<rparr>;
           m = m\<lparr>latency_count := latency_count m + 1\<rparr>;
           m = m\<lparr>latency_min_us := cas_update (<) latency_us (latency_min_us m)\<rparr>
       in m\<lparr>latency_max_us := cas_update (>) latency_us (latency_max_us m)\<rparr>)"

definition yurei_metrics_bytes :: "u64 \<Rightarrow> YureiMetrics option \<Rightarrow> YureiMetrics option" where
  "yurei_metrics_bytes bytes = map_option (\<lambda>m. m\<lparr>bytes_received := bytes_received m + bytes\<rparr>)"

definition yurei_metrics_event :: "YureiMetrics option \<Rightarrow> YureiMetrics option" where
  "yurei_metrics_event = map_option (\<lambda>m. m\<lparr>events_processed := events_processed m + 1\<rparr>)"

definition yurei_metrics_ws_reconnect :: "YureiMetrics option \<Rightarrow> YureiMetrics option" where
  "yurei_metrics_ws_reconnect = map_option (\<lambda>m. m\<lparr>ws_reconnects := ws_reconnects m + 1\<rparr>)"

definition yurei_metrics_avg_latency_us :: "YureiMetrics option \<Rightarrow> u64" where
  "yurei_metrics_avg_latency_us mo =
     (case mo of
        None \<Rightarrow> 0
      | Some m \<Rightarrow> if latency_count m = 0 then 0 else latency_sum_us m div latency_count m)"

section \<open>The summary\<close>

text \<open>
  \<open>%.kf\<close> of a non-negative double: the exact value rounded to \<open>k\<close> decimals, ties to even,
  as the GNU C library prints it.
\<close>

definition show_fixed :: "nat \<Rightarrow> rat \<Rightarrow> string" where
  "show_fixed k x =
     (let n = nat (rne (x * 10 ^ k)); frac = show_nat (n mod 10 ^ k)
      in show_nat (n div 10 ^ k) @ ''.'' @ replicate (k - length frac) (CHR ''0'') @ frac)"

definition success_rate :: "(rat \<Rightarrow> rat) \<Rightarrow> YureiMetrics \<Rightarrow> rat" where
  "success_rate fl m =
     (if 0 < requests_total m
      then fl (fl (fl (of_nat (unat (requests_success m))) / fl (of_nat (unat (requests_total m)))) * 100)
      else 0)"

definition yurei_metrics_log :: "(rat \<Rightarrow> rat) \<Rightarrow> YureiMetrics option \<Rightarrow> log_event list" where
  "yurei_metrics_log fl mo =
     (case mo of
        None \<Rightarrow> []
      | Some m \<Rightarrow>
          let u = (\<lambda>w. show_nat (unat (w :: u64)));
              avg_lat = yurei_metrics_avg_latency_us mo;
              min_lat = (if latency_min_us m = UINT64_MAX then 0 else latency_min_us m);
              bytes_kb = fl (fl (of_nat (unat (bytes_received m))) / 1024)
          in [(YUREI_LOG_INFO, ''=== METRICS ===''),
              (YUREI_LOG_INFO, ''Requests: total='' @ u (requests_total m) @ '' success='' @ u (requests_success m) @
                 '' failed='' @ u (requests_failed m) @ '' ('' @ show_fixed 1 (success_rate fl m) @ ''% success)''),
              (YUREI_LOG_INFO, ''Latency: avg='' @ u avg_lat @ ''us min='' @ u min_lat @ ''us max='' @
                 u (latency_max_us m) @ ''us''),
              (YUREI_LOG_INFO, ''Events processed: '' @ u (events_processed m) @ '' | Bytes received: '' @
                 show_fixed 2 bytes_kb @ '' KB | WS reconnects: '' @ u (ws_reconnects m))])"

section \<open>Histories of calls\<close>

datatype metrics_call =
    RequestDone bool u64
  | BytesReceived u64
  | EventProcessed
  | WsReconnected

fun metrics_do :: "metrics_call \<Rightarrow> YureiMetrics option \<Rightarrow> YureiMetrics option" where
  "metrics_do (RequestDone success lat) = yurei_metrics_request success lat"
| "metrics_do (BytesReceived n) = yurei_metrics_bytes n"
| "metrics_do EventProcessed = yurei_metrics_event"
| "metrics_do WsReconnected = yurei_metrics_ws_reconnect"

text \<open>The counters of a \<open>YureiMetrics\<close> object after its initialisation and the calls.\<close>

definition metrics_after :: "YureiMetrics \<Rightarrow> metrics_call list \<Rightarrow> YureiMetrics" where
  "metrics_after m0 calls = the (fold metrics_do calls (yurei_metrics_init (Some m0)))"

fun latency_of :: "metrics_call \<Rightarrow> u64 list" where
  "latency_of (RequestDone success lat) = [lat]"
| "latency_of _ = []"

fun bytes_of :: "metrics_call \<Rightarrow> u64" where
  "bytes_of (BytesReceived n) = n"
| "bytes_of _ = 0"

definition latencies :: "metrics_call list \<Rightarrow> u64 list" where
  "latencies calls = concat (map latency_of calls)"

fun succeeded :: "metrics_call \<Rightarrow> bool" where
  "succeeded (RequestDone success lat) = success"
| "succeeded _ = False"

fun failed :: "metrics_call \<Rightarrow> bool" where
  "failed (RequestDone success lat) = (\<not> success)"
| "failed _ = False"

lemmas metrics_op_defs = yurei_metrics_init_def yurei_metrics_request_def yurei_metrics_bytes_def
  yurei_metrics_event_def yurei_metrics_ws_reconnect_def metrics_zero_def

lemma latencies_simps [simp]:
  "latencies [] = []"
  "latencies (c # calls) = latency_of c @ latencies calls"
  "latencies (calls @ calls') = latencies calls @ latencies calls'"
  by (simp_all add: latencies_def)

lemma metrics_do_Some: "\<exists>m'. metrics_do c (Some m) = Some m'"
  by (cases c) (simp_all add: metrics_op_defs)

lemma fold_metrics_Some: "\<exists>m'. fold metrics_do calls (Some m) = Some m'"
proof (induction calls arbitrary: m)
  case (Cons c calls)
  obtain m' where "metrics_do c (Some m) = Some m'" using metrics_do_Some by blast
  with Cons.IH [of m'] show ?case by simp
qed simp

lemma metrics_after_Nil: "metrics_after m0 [] = metrics_zero\<lparr>latency_min_us := UINT64_MAX\<rparr>"
  by (simp add: metrics_after_def yurei_metrics_init_def)

lemma metrics_after_snoc: "metrics_after m0 (calls @ [c]) = the (metrics_do c (Some (metrics_after m0 calls)))"
proof -
  obtain m' where "fold metrics_do calls (yurei_metrics_init (Some m0)) = Some m'"
    using fold_metrics_Some by (auto simp: yurei_metrics_init_def)
  then show ?thesis by (simp add: metrics_after_def)
qed

text \<open>The exact value of every counter, as a word.\<close>

definition metrics_spec :: "metrics_call list \<Rightarrow> YureiMetrics \<Rightarrow> bool" where
  "metrics_spec calls m =
     (requests_total m = of_nat (length (latencies calls))
      \<and> requests_success m = of_nat (length (filter succeeded calls))
      \<and> requests_failed m = of_nat (length (filter failed calls))
      \<and> events_processed m = of_nat (length (filter ((=) EventProcessed) calls))
      \<and> latency_sum_us m = sum_list (latencies calls)
      \<and> latency_count m = of_nat (length (latencies calls))
      \<and> latency_min_us m = Min (insert UINT64_MAX (set (latencies calls)))
      \<and> latency_max_us m = Max (insert 0 (set (latencies calls)))
      \<and> bytes_received m = sum_list (map bytes_of calls)
      \<and> ws_reconnects m = of_nat (length (filter ((=) WsReconnected) calls)))"

lemma cas_update_min: "cas_update (<) v m = min v (m :: u64)"
  by (auto simp: cas_update_def min_def)

lemma cas_update_max: "cas_update (>) v m = max v (m :: u64)"
  by (auto simp: cas_update_def max_def)

lemma Min_insert_snoc: "Min (insert u (insert l (set ls))) = min l (Min (insert u (set ls)) :: u64)"
  by (simp add: insert_commute [of u l])

lemma Max_insert_snoc: "Max (insert u (insert l (set ls))) = max l (Max (insert u (set ls)) :: u64)"
  by (simp add: insert_commute [of u l])

lemma metrics_after_spec: "metrics_spec calls (metrics_after m0 calls)"
proof (induction calls rule: rev_induct)
  case Nil
  show ?case by (simp add: metrics_after_Nil metrics_spec_def metrics_zero_def)
next
  case (snoc c calls)
  show ?case
  proof (cases c)
    case (RequestDone s l)
    with snoc show ?thesis
      by (simp add: metrics_after_snoc metrics_spec_def metrics_op_defs Let_def cas_update_min
          cas_update_max Min_insert_snoc Max_insert_snoc del: Min_insert Max_insert)
  qed (use snoc in \<open>simp_all add: metrics_after_snoc metrics_spec_def metrics_op_defs\<close>)
qed

lemma requests_split: "length (latencies calls) = length (filter succeeded calls) + length (filter failed calls)"
proof (induction calls)
  case (Cons c calls)
  then show ?case by (cases c) simp_all
qed simp

lemma latencies_length: "length (latencies calls) \<le> length calls"
proof (induction calls)
  case (Cons c calls)
  then show ?case by (cases c) simp_all
qed simp

lemma unat_sum_list:
  "sum_list (map unat ls) < 2 ^ 64 \<Longrightarrow> unat (sum_list ls :: u64) = sum_list (map unat ls)"
proof (induction ls)
  case (Cons l ls)
  then have "unat (sum_list ls) = sum_list (map unat ls)" by simp
  with Cons.prems show ?case using unat_add_no_wrap [of l "sum_list ls"] by simp
qed simp

lemma unat_of_nat_64: "n < 2 ^ 64 \<Longrightarrow> unat (of_nat n :: u64) = n"
  by (simp add: unat_of_nat)

lemma sum_list_bounds:
  assumes "\<And>l. l \<in> set ls \<Longrightarrow> lo \<le> unat l \<and> unat l \<le> hi"
  shows "length ls * lo \<le> sum_list (map unat (ls :: u64 list)) \<and> sum_list (map unat ls) \<le> length ls * hi"
  using assms by (induction ls) (auto simp: add_mono)

lemma average_between:
  assumes "ls \<noteq> []" and "\<And>l. l \<in> set ls \<Longrightarrow> lo \<le> unat l \<and> unat l \<le> hi"
  shows "lo \<le> sum_list (map unat (ls :: u64 list)) div length ls \<and> sum_list (map unat ls) div length ls \<le> hi"
proof -
  have n: "0 < length ls" using assms(1) by simp
  have b: "length ls * lo \<le> sum_list (map unat ls)" "sum_list (map unat ls) \<le> length ls * hi"
    using sum_list_bounds [of ls lo hi] assms(2) by auto
  from div_le_mono [OF b(1), of "length ls"] div_le_mono [OF b(2), of "length ls"] n show ?thesis by simp
qed

text \<open>
  C20. After any sequence of calls, as long as no counter overflows: every request is counted
  once, as a success or as a failure, the average is the integer mean of the recorded
  latencies, and it lies between the minimum and the maximum, which are those of the
  latencies. The state the object had before the initialisation does not matter.
\<close>

theorem metrics_statistics:
  assumes "length calls < 2 ^ 64" and "sum_list (map unat (latencies calls)) < 2 ^ 64"
    and "latencies calls \<noteq> []"
  shows "unat (requests_total (metrics_after m0 calls)) = length (latencies calls)
    \<and> unat (requests_total (metrics_after m0 calls))
        = unat (requests_success (metrics_after m0 calls)) + unat (requests_failed (metrics_after m0 calls))
    \<and> unat (requests_success (metrics_after m0 calls)) = length (filter succeeded calls)
    \<and> unat (yurei_metrics_avg_latency_us (Some (metrics_after m0 calls)))
        = sum_list (map unat (latencies calls)) div length (latencies calls)
    \<and> latency_min_us (metrics_after m0 calls) = Min (set (latencies calls))
    \<and> latency_max_us (metrics_after m0 calls) = Max (set (latencies calls))
    \<and> latency_min_us (metrics_after m0 calls) \<le> yurei_metrics_avg_latency_us (Some (metrics_after m0 calls))
    \<and> yurei_metrics_avg_latency_us (Some (metrics_after m0 calls)) \<le> latency_max_us (metrics_after m0 calls)"
proof -
  let ?m = "metrics_after m0 calls" and ?ls = "latencies calls"
  have spec: "metrics_spec calls ?m" by (rule metrics_after_spec)
  have n: "length ?ls < 2 ^ 64" using latencies_length [of calls] assms(1) by linarith
  have f: "length (filter succeeded calls) < 2 ^ 64" "length (filter failed calls) < 2 ^ 64"
    using n requests_split [of calls] by linarith+
  have total: "unat (requests_total ?m) = length ?ls" "unat (latency_count ?m) = length ?ls"
    using spec n unat_of_nat_64 by (simp_all add: metrics_spec_def)
  have parts: "unat (requests_success ?m) = length (filter succeeded calls)"
    "unat (requests_failed ?m) = length (filter failed calls)"
    using spec f unat_of_nat_64 by (simp_all add: metrics_spec_def)
  have "latency_count ?m \<noteq> 0" using total(2) assms(3) by (metis length_0_conv unat_0)
  then have avg: "unat (yurei_metrics_avg_latency_us (Some ?m)) = sum_list (map unat ?ls) div length ?ls"
    using spec total unat_sum_list [OF assms(2)]
    by (simp add: yurei_metrics_avg_latency_us_def unat_div metrics_spec_def)
  have mn: "latency_min_us ?m = Min (set ?ls)"
    using spec assms(3) word_order.extremum [of "Min (set ?ls)"]
    by (simp add: metrics_spec_def UINT64_MAX_def min_absorb2 del: Min_le_iff)
  have mx: "latency_max_us ?m = Max (set ?ls)"
    using spec assms(3) by (simp add: metrics_spec_def max_def)
  have "unat (Min (set ?ls)) \<le> unat l \<and> unat l \<le> unat (Max (set ?ls))" if "l \<in> set ?ls" for l
    using that by (simp add: word_le_nat [symmetric])
  from average_between [OF assms(3) this] total parts avg mn mx requests_split [of calls]
  show ?thesis by (simp add: word_le_nat)
qed

definition sample_calls :: "metrics_call list" where
  "sample_calls = [RequestDone True 40, EventProcessed, RequestDone False 7, BytesReceived 1536, EventProcessed,
     RequestDone True 20]"

lemma sample_metrics:
  "metrics_after metrics_zero sample_calls =
     \<lparr>requests_total = 3, requests_success = 2, requests_failed = 1, events_processed = 2, latency_sum_us = 67,
      latency_count = 3, latency_min_us = 7, latency_max_us = 40, bytes_received = 1536, ws_reconnects = 0\<rparr>"
  by (simp add: metrics_after_def sample_calls_def metrics_op_defs cas_update_def UINT64_MAX_def Let_def)

theorem metrics_statistics_witness:
  "unat (yurei_metrics_avg_latency_us (Some (metrics_after metrics_zero sample_calls))) = 22
   \<and> latency_min_us (metrics_after metrics_zero sample_calls) = 7"
  using metrics_statistics [of sample_calls metrics_zero] by (simp add: sample_calls_def)

context fp_rounding
begin

lemma success_rate_bounds:
  assumes "requests_success m \<le> requests_total m"
  shows "0 \<le> success_rate fl m \<and> success_rate fl m \<le> 100"
proof (cases "0 < requests_total m")
  case True
  let ?s = "fl (of_nat (unat (requests_success m)))" and ?t = "fl (of_nat (unat (requests_total m)))"
  have "?s \<le> ?t" using assms by (intro fl_mono of_nat_unat_mono)
  moreover have "1 \<le> ?t"
    using True by (intro fl_ge_rep [OF fl_1] of_nat_unat_pos)
  moreover have "0 \<le> ?s" by (rule fl_nonneg) (rule of_nat_0_le_iff)
  ultimately have "0 \<le> ?s / ?t" "?s / ?t \<le> 1" by (simp_all add: divide_le_eq_1)
  then have q: "0 \<le> fl (?s / ?t)" "fl (?s / ?t) \<le> 1"
    using fl_nonneg fl_le_rep [OF fl_1] by blast+
  have "fl (fl (?s / ?t) * 100) \<le> 100"
    using q(2) fl_int [of 100] by (intro fl_le_rep) simp_all
  moreover have "0 \<le> fl (fl (?s / ?t) * 100)" using q(1) by (intro fl_nonneg) simp
  ultimately show ?thesis using True by (simp add: success_rate_def)
next
  case False
  then show ?thesis by (simp add: success_rate_def)
qed

lemma success_rate_all:
  assumes "requests_success m = requests_total m" and "0 < requests_total m"
  shows "success_rate fl m = 100"
proof -
  have "1 \<le> fl (of_nat (unat (requests_total m)))"
    using assms(2) by (intro fl_ge_rep [OF fl_1] of_nat_unat_pos)
  then show ?thesis using assms fl_1 fl_int [of 100] by (simp add: success_rate_def)
qed

end

text \<open>
  The success rate the summary prints, computed in doubles, is a percentage: after any
  calls it lies between 0 and 100, it is exactly 100 when no request failed, and 0 when there
  was no request, where the code avoids the division by zero.
\<close>

theorem success_rate_percentage:
  assumes "length calls < 2 ^ 64"
  shows "0 \<le> success_rate dround (metrics_after m0 calls) \<and> success_rate dround (metrics_after m0 calls) \<le> 100
    \<and> (filter failed calls = [] \<and> latencies calls \<noteq> [] \<longrightarrow> success_rate dround (metrics_after m0 calls) = 100)
    \<and> (latencies calls = [] \<longrightarrow> success_rate dround (metrics_after m0 calls) = 0)"
proof -
  let ?m = "metrics_after m0 calls"
  have spec: "metrics_spec calls ?m" by (rule metrics_after_spec)
  have n: "length (latencies calls) < 2 ^ 64" using latencies_length [of calls] assms by linarith
  have t: "unat (requests_total ?m) = length (latencies calls)"
    using spec n unat_of_nat_64 by (simp add: metrics_spec_def)
  have "length (filter succeeded calls) < 2 ^ 64" using n requests_split [of calls] by linarith
  then have s: "unat (requests_success ?m) = length (filter succeeded calls)"
    using spec unat_of_nat_64 by (simp add: metrics_spec_def)
  have b: "requests_success ?m \<le> requests_total ?m" using s t requests_split [of calls] by (simp add: word_le_nat)
  have all: "success_rate dround ?m = 100" if "filter failed calls = []" "latencies calls \<noteq> []"
  proof (rule binary64.success_rate_all)
    show "requests_success ?m = requests_total ?m"
      using spec requests_split [of calls] that(1) by (simp add: metrics_spec_def)
    show "0 < requests_total ?m" using t that(2) by (simp add: word_less_nat)
  qed
  have none: "success_rate dround ?m = 0" if "latencies calls = []"
    using spec that by (simp add: metrics_spec_def success_rate_def)
  from binary64.success_rate_bounds [OF b] all none show ?thesis by blast
qed

theorem success_rate_percentage_witness:
  "success_rate dround (metrics_after metrics_zero sample_calls) \<le> 100
   \<and> success_rate dround (metrics_after metrics_zero [RequestDone True 5]) = 100"
  using success_rate_percentage [of sample_calls metrics_zero]
    success_rate_percentage [of "[RequestDone True 5]" metrics_zero] by (simp add: sample_calls_def)

text \<open>The four lines of the summary of the sample calls.\<close>

lemma sample_summary:
  "yurei_metrics_log dround (Some (metrics_after metrics_zero sample_calls)) =
     [(YUREI_LOG_INFO, ''=== METRICS ===''),
      (YUREI_LOG_INFO, ''Requests: total=3 success=2 failed=1 (66.7% success)''),
      (YUREI_LOG_INFO, ''Latency: avg=22us min=7us max=40us''),
      (YUREI_LOG_INFO, ''Events processed: 2 | Bytes received: 1.50 KB | WS reconnects: 0'')]"
  unfolding sample_metrics yurei_metrics_log_def yurei_metrics_avg_latency_us_def Let_def success_rate_def UINT64_MAX_def
  by simp (intro conjI; code_simp)

end
