(* ===== verification/Backoff.thy ===== *)
theory Backoff
  imports Yurei_Prelude
begin

text \<open>
  The exponential back-off that \<open>src/db_writer.c\<close> and \<open>src/websocket_client.c\<close> both
  write out: below the limit the delay doubles and is cut to the limit. The delay is a
  \<open>uint32_t\<close>, so the doubling can wrap; so can the microseconds given to \<open>usleep\<close>.
\<close>

section \<open>The step\<close>

definition backoff_next :: "u32 \<Rightarrow> u32 \<Rightarrow> u32" where
  "backoff_next max_backoff backoff_ms =
     (if backoff_ms < max_backoff then
        let backoff_ms = backoff_ms * 2 in if max_backoff < backoff_ms then max_backoff else backoff_ms
      else backoff_ms)"

definition usleep_us :: "u32 \<Rightarrow> u32" where
  "usleep_us ms = ms * 1000"

section \<open>A limit that cannot wrap\<close>

locale backoff_limit =
  fixes limit :: u32
  assumes limit_bound: "unat limit \<le> 2 ^ 31"
begin

lemma next_unat: "unat (backoff_next limit b) = (if unat b < unat limit then min (2 * unat b) (unat limit) else unat b)"
proof (cases "unat b < unat limit")
  case True
  then have "unat (b * 2) = 2 * unat b" using limit_bound by (intro unat_double_no_wrap) simp
  with True show ?thesis by (auto simp: backoff_next_def Let_def word_less_nat)
qed (simp add: backoff_next_def word_less_nat)

text \<open>The delay after \<open>n\<close> failures.\<close>

lemma iterate_unat:
  "unat b \<le> unat limit \<Longrightarrow> unat ((backoff_next limit ^^ n) b) = min (unat b * 2 ^ n) (unat limit)"
proof (induction n)
  case (Suc n)
  then show ?case by (auto simp: next_unat min_def)
qed (simp add: min_def)

lemma iterate_mono:
  assumes "unat b \<le> unat limit"
  shows "(backoff_next limit ^^ n) b \<le> (backoff_next limit ^^ Suc n) b"
proof -
  have "unat b * 2 ^ n \<le> unat b * 2 ^ Suc n" by simp
  then show ?thesis
    unfolding word_le_nat iterate_unat [OF assms] by (rule min.mono) simp
qed

lemma above_limit: "unat limit \<le> unat b \<Longrightarrow> (backoff_next limit ^^ n) b = b"
  by (induction n) (simp_all add: backoff_next_def word_less_nat)

end

text \<open>At least one limit above the bound makes the delay wrap to a small value.\<close>

lemma backoff_can_wrap: "backoff_next 0xFFFFFFFF 0x80000000 = 0"
  by (simp add: backoff_next_def)

lemma usleep_unat_mod: "unat (usleep_us ms) = 1000 * unat ms mod 2 ^ 32"
  unfolding usleep_us_def by (simp add: unat_word_ariths mult.commute)

lemma usleep_unat: "unat ms \<le> 4294967 \<Longrightarrow> unat (usleep_us ms) = 1000 * unat ms"
  unfolding usleep_us_def by (simp add: unat_word_ariths)

end
