(* ===== verification/Rpc_Request.thy ===== *)
theory Rpc_Request
  imports Config
begin

text \<open>
  The text of the JSON-RPC requests, as both network components must send it: the array of
  the programs whose logs are wanted. \<open>Http_Poller\<close> and \<open>Websocket_Client\<close> each have their
  own copy of the C function that builds it; their lemmas compare it with this one.
\<close>

fun comma_join :: "string list \<Rightarrow> string" where
  "comma_join [] = []"
| "comma_join [s] = s"
| "comma_join (s # t # ss) = s @ '','' @ comma_join (t # ss)"

definition quoted :: "string \<Rightarrow> string" where
  "quoted p = ''\"'' @ p @ ''\"''"

text \<open>The programs that are configured, or the empty name when there is none.\<close>

definition mentioned :: "YureiConfig \<Rightarrow> string list" where
  "mentioned config =
     (let ps = filter (\<lambda>p. p \<noteq> []) [pumpfun_program config, raydium_program config] in if ps = [] then [[]] else ps)"

definition mentions_text :: "YureiConfig \<Rightarrow> string" where
  "mentions_text config = ''['' @ comma_join (map quoted (mentioned config)) @ '']''"

lemma program_lengths:
  assumes "config_wf config"
  shows "length (pumpfun_program config) < 64" and "length (raydium_program config) < 64"
  using assms by (simp_all add: config_wf_def fits_def)

lemma mentions_length: "config_wf config \<Longrightarrow> length (mentions_text config) \<le> 133"
  using program_lengths [of config] by (auto simp: mentions_text_def mentioned_def quoted_def Let_def)

text \<open>Formatting piece after piece into a buffer that has room for all of them.\<close>

lemma snprintf_at_start: "0 < len \<Longrightarrow> length s < len \<Longrightarrow> snprintf_at len s ([], 0) = Some (s, length s)"
  using snprintf_at_fits [of "[]" s len] by simp

end
