(* ===== verification/Http_Poller.thy ===== *)
theory Http_Poller
  imports Parser Rate_Limiter Metrics Backoff Rpc_Request "HOL-Library.Signed_Division"
begin

text \<open>
  \<open>src/http_poller.c\<close> and \<open>include/http_poller.h\<close>: the thread that asks the RPC node for logs.
  libcurl is not part of the repository: what one \<open>curl_easy_perform\<close> does is the data of a
  record, the chunks it passes to \<open>write_callback\<close> and whether it succeeds. The queue is any
  provider of \<open>event_sink\<close>, the JSON library the parameter of theory \<open>Parser\<close>.
\<close>

section \<open>The response buffer\<close>

text \<open>
  \<open>data\<close> is \<open>NULL\<close> or holds \<open>length\<close> bytes and a terminator. \<open>realloc_ok\<close> says whether
  \<open>realloc\<close> finds memory; a chunk has \<open>size * nmemb\<close> bytes.
\<close>

record CurlBuffer =
  cb_data :: "string option"
  cb_length :: size_t

definition write_callback :: "bool \<Rightarrow> string \<Rightarrow> CurlBuffer \<Rightarrow> size_t \<times> CurlBuffer" where
  "write_callback realloc_ok chunk buffer =
     (if \<not> realloc_ok then (0, buffer)
      else (length chunk,
        \<lparr>cb_data = Some ((case cb_data buffer of None \<Rightarrow> [] | Some d \<Rightarrow> d) @ chunk),
         cb_length = cb_length buffer + length chunk\<rparr>))"

definition receive_chunks :: "(bool \<times> string) list \<Rightarrow> CurlBuffer \<Rightarrow> CurlBuffer" where
  "receive_chunks = fold (\<lambda>(ok, chunk) buffer. snd (write_callback ok chunk buffer))"

section \<open>The request\<close>

text \<open>\<open>None\<close>: one of the writes would be outside the array.\<close>

definition build_mentions_array :: "YureiConfig \<Rightarrow> nat \<Rightarrow> string option" where
  "build_mentions_array config len =
     (if len = 0 then Some []
      else
        Option.bind (snprintf_at len ''['' ([], 0)) (\<lambda>st.
        Option.bind
          (if pumpfun_program config \<noteq> []
           then map_option (\<lambda>st. (st, False)) (snprintf_at len (''\"'' @ pumpfun_program config @ ''\"'') st)
           else Some (st, True)) (\<lambda>(st, first).
        Option.bind
          (if raydium_program config \<noteq> []
           then map_option (\<lambda>st. (st, False))
             (snprintf_at len ((if first then [] else '','') @ ''\"'' @ raydium_program config @ ''\"'') st)
           else Some (st, first)) (\<lambda>(st, first).
        Option.bind
          (if first then snprintf_at len (''\"'' @ pumpfun_program config @ ''\"'') st else Some st) (\<lambda>st.
        map_option fst (snprintf_at len '']'' st))))))"

definition http_payload :: "string \<Rightarrow> u64 \<Rightarrow> string" where
  "http_payload mentions last_slot =
     (if 0 < last_slot then
        snprintf_str 512
          (''{\"jsonrpc\":\"2.0\",\"id\":1,\"method\":\"getLogs\",'' @ ''\"params\":[{\"mentions\":'' @ mentions @
           '',\"startSlot\":'' @ show_nat (unat last_slot) @ '',\"limit\":50},'' @ ''{\"commitment\":\"confirmed\"}]}'')
      else
        snprintf_str 512
          (''{\"jsonrpc\":\"2.0\",\"id\":1,\"method\":\"getLogs\",'' @ ''\"params\":[{\"mentions\":'' @ mentions @
           '',\"limit\":50},{\"commitment\":\"confirmed\"}]}''))"

definition poll_latency_us :: "timespec \<Rightarrow> timespec \<Rightarrow> u64" where
  "poll_latency_us start finish =
     word_of_int ((tv_sec finish - tv_sec start) * 1000000 + (tv_nsec finish - tv_nsec start) sdiv 1000)"

section \<open>One round of the thread\<close>

record 'q YureiHttpPoller =
  hp_running :: bool
  hp_config :: YureiConfig
  hp_queue :: 'q
  hp_metrics :: "YureiMetrics option"
  hp_rate_limiter :: "YureiRateLimiter option"
  hp_last_slot :: u64
  hp_log :: "log_event list"

text \<open>
  What the outside gives one round: the clock readings of the rate limiter, the readings around
  the request, the calls of \<open>write_callback\<close>, the return code and its text.
\<close>

record poll_env =
  pe_clock :: "timespec list"
  pe_start :: timespec
  pe_end :: timespec
  pe_chunks :: "(bool \<times> string) list"
  pe_rc_ok :: bool
  pe_error :: string

text \<open>The part after the request: \<open>None\<close> when the parser waits for room in the queue.\<close>

definition poll_response ::
  "'j cjson \<Rightarrow> (rat \<Rightarrow> u64) \<Rightarrow> ('q \<Rightarrow> YureiEvent \<Rightarrow> (int \<times> 'q) option) \<Rightarrow> poll_env \<Rightarrow> 'q YureiHttpPoller
    \<Rightarrow> 'q YureiHttpPoller option" where
  "poll_response cj oob push env poller =
     (let buffer = receive_chunks (pe_chunks env) \<lparr>cb_data = None, cb_length = 0\<rparr>;
          latency_us = poll_latency_us (pe_start env) (pe_end env)
      in case (if pe_rc_ok env then cb_data buffer else None) of
           Some body \<Rightarrow>
             let poller = poller\<lparr>hp_metrics :=
                   yurei_metrics_bytes (of_nat (cb_length buffer))
                     (yurei_metrics_request True latency_us (hp_metrics poller))\<rparr>
             in (case yurei_parser_handle_message cj oob push (cstr body) (hp_config poller) (hp_queue poller)
                        (Some (hp_last_slot poller)) of
                   None \<Rightarrow> None
                 | Some (processed, queue, highest, msgs) \<Rightarrow>
                     let highest_slot = the highest;
                         poller = poller\<lparr>hp_queue := queue, hp_log := hp_log poller @ msgs\<rparr>;
                         poller = (if 0 < processed then
                           poller\<lparr>hp_log := hp_log poller @ [(YUREI_LOG_DEBUG,
                               ''HTTP poll: processed '' @ show_nat (nat processed) @ '' events, latency='' @
                               show_nat (unat latency_us) @ ''us'')],
                             hp_metrics := (yurei_metrics_event ^^ nat processed) (hp_metrics poller)\<rparr>
                           else poller)
                     in Some (if 0 < processed \<and> hp_last_slot poller < highest_slot
                              then poller\<lparr>hp_last_slot := highest_slot\<rparr> else poller))
         | None \<Rightarrow>
             Some (poller\<lparr>hp_log := hp_log poller @ [(YUREI_LOG_WARN,
                 ''HTTP poll failed: '' @ pe_error env @ '' (latency='' @ show_nat (unat latency_us) @ ''us)'')],
               hp_metrics := yurei_metrics_request False latency_us (hp_metrics poller)\<rparr>))"

text \<open>
  The round behind the rate limiter. The result also has the POST body and the argument of
  \<open>usleep\<close>.
\<close>

definition poll_request ::
  "'j cjson \<Rightarrow> (rat \<Rightarrow> u64) \<Rightarrow> ('q \<Rightarrow> YureiEvent \<Rightarrow> (int \<times> 'q) option) \<Rightarrow> poll_env
    \<Rightarrow> 'q YureiHttpPoller \<Rightarrow> ('q YureiHttpPoller \<times> string \<times> u32) option" where
  "poll_request cj oob push env poller =
     (case build_mentions_array (hp_config poller) 256 of
        None \<Rightarrow> None
      | Some mentions \<Rightarrow>
          let payload = http_payload mentions (hp_last_slot poller);
              poller = poller\<lparr>hp_log := hp_log poller @ [(YUREI_LOG_TRACE, ''HTTP request: '' @ payload)]\<rparr>
          in map_option (\<lambda>poller. (poller, payload, usleep_us (poll_interval_ms (hp_config poller))))
               (poll_response cj oob push env poller))"

text \<open>
  A whole round; \<open>None\<close> when the thread waits, in the queue or in the rate limiter for longer
  than the given readings.
\<close>

definition poll_round ::
  "'j cjson \<Rightarrow> (rat \<Rightarrow> u64) \<Rightarrow> (rat \<Rightarrow> rat) \<Rightarrow> ('q \<Rightarrow> YureiEvent \<Rightarrow> (int \<times> 'q) option) \<Rightarrow> poll_env
    \<Rightarrow> 'q YureiHttpPoller \<Rightarrow> ('q YureiHttpPoller \<times> string \<times> u32) option" where
  "poll_round cj oob fl push env poller =
     (case hp_rate_limiter poller of
        None \<Rightarrow> poll_request cj oob push env poller
      | Some rl \<Rightarrow>
          (case yurei_rate_limiter_wait fl (pe_clock env) rl of
             None \<Rightarrow> None
           | Some (rl', sleeps, rest) \<Rightarrow> poll_request cj oob push env (poller\<lparr>hp_rate_limiter := Some rl'\<rparr>)))"

text \<open>
  The thread: \<open>curl_ok\<close> is the result of \<open>curl_easy_init\<close>; each round comes with the value
  that the read of \<open>running\<close> before it returns. The list of payloads sent is in the result.
\<close>

fun poller_loop ::
  "'j cjson \<Rightarrow> (rat \<Rightarrow> u64) \<Rightarrow> (rat \<Rightarrow> rat) \<Rightarrow> ('q \<Rightarrow> YureiEvent \<Rightarrow> (int \<times> 'q) option) \<Rightarrow> (bool \<times> poll_env) list
    \<Rightarrow> 'q YureiHttpPoller \<Rightarrow> ('q YureiHttpPoller \<times> string list) option" where
  "poller_loop cj oob fl push [] poller = Some (poller, [])"
| "poller_loop cj oob fl push ((running, env) # rounds) poller =
     (if \<not> running then Some (poller, [])
      else case poll_round cj oob fl push env poller of
        None \<Rightarrow> None
      | Some (poller', payload, us) \<Rightarrow>
          map_option (\<lambda>(poller'', payloads). (poller'', payload # payloads)) (poller_loop cj oob fl push rounds poller'))"

definition poller_thread ::
  "'j cjson \<Rightarrow> (rat \<Rightarrow> u64) \<Rightarrow> (rat \<Rightarrow> rat) \<Rightarrow> ('q \<Rightarrow> YureiEvent \<Rightarrow> (int \<times> 'q) option) \<Rightarrow> bool \<Rightarrow> (bool \<times> poll_env) list
    \<Rightarrow> 'q YureiHttpPoller \<Rightarrow> ('q YureiHttpPoller \<times> string list) option" where
  "poller_thread cj oob fl push curl_ok rounds poller =
     (if \<not> curl_ok then
        Some (poller\<lparr>hp_log := hp_log poller @ [(YUREI_LOG_ERROR, ''Failed to initialize libcurl'')],
          hp_running := False\<rparr>, [])
      else poller_loop cj oob fl push rounds poller)"

text \<open>
  \<open>yurei_http_poller_start\<close> on non-null arguments: the return code, and the object when it was
  written. \<open>global_ok\<close> is \<open>curl_global_init(...) == 0\<close>.
\<close>

definition yurei_http_poller_start ::
  "bool \<Rightarrow> bool \<Rightarrow> YureiConfig \<Rightarrow> 'q \<Rightarrow> YureiMetrics option \<Rightarrow> YureiRateLimiter option
    \<Rightarrow> int \<times> 'q YureiHttpPoller option \<times> log_event list" where
  "yurei_http_poller_start global_ok create_ok config queue metrics rate_limiter =
     (if \<not> global_ok then (- 1, None, [(YUREI_LOG_ERROR, ''curl_global_init failed'')])
      else
        let poller = \<lparr>hp_running = True, hp_config = config, hp_queue = queue, hp_metrics = metrics,
              hp_rate_limiter = rate_limiter, hp_last_slot = 0, hp_log = []\<rparr>
        in if \<not> create_ok then (- 1, Some (poller\<lparr>hp_running := False\<rparr>), []) else (0, Some poller, []))"

definition yurei_http_poller_stop :: "'q YureiHttpPoller \<Rightarrow> 'q YureiHttpPoller" where
  "yurei_http_poller_stop poller = poller\<lparr>hp_running := False\<rparr>"

section \<open>The request is complete\<close>

lemma build_mentions_exact:
  assumes "config_wf config"
  shows "build_mentions_array config 256 = Some (mentions_text config)"
  using program_lengths [OF assms]
  by (simp add: build_mentions_array_def mentions_text_def mentioned_def quoted_def snprintf_at_def Let_def)

lemma http_payload_exact:
  assumes "length mentions \<le> 133"
  shows "http_payload mentions s =
    ''{\"jsonrpc\":\"2.0\",\"id\":1,\"method\":\"getLogs\",\"params\":[{\"mentions\":'' @ mentions @
      (if 0 < s then '',\"startSlot\":'' @ show_nat (unat s) else []) @
      '',\"limit\":50},{\"commitment\":\"confirmed\"}]}''"
  using assms show_u64_length [of s] by (simp add: http_payload_def)

text \<open>
  C12. For every configuration that fits its arrays the request is complete: none of the writes
  into the two buffers is cut or outside, the array names the configured programs, and the
  slot to start from is there exactly when one is known.
\<close>

theorem http_request_complete:
  assumes "config_wf config"
  shows "\<exists>mentions. build_mentions_array config 256 = Some mentions \<and> mentions = mentions_text config
    \<and> http_payload mentions s =
        ''{\"jsonrpc\":\"2.0\",\"id\":1,\"method\":\"getLogs\",\"params\":[{\"mentions\":'' @ mentions @
        (if 0 < s then '',\"startSlot\":'' @ show_nat (unat s) else []) @
        '',\"limit\":50},{\"commitment\":\"confirmed\"}]}''
    \<and> length (http_payload mentions s) < 512"
proof -
  have m: "length (mentions_text config) \<le> 133" using assms by (rule mentions_length)
  have "length (http_payload (mentions_text config) s) < 512"
    unfolding http_payload_def by (cases "0 < s"; simp only: if_True if_False; rule snprintf_str_length; simp)
  with build_mentions_exact [OF assms] http_payload_exact [OF m, of s] show ?thesis by blast
qed

theorem http_request_complete_witness:
  "\<exists>mentions. build_mentions_array apply_defaults 256 = Some mentions
    \<and> mentions = ''[\"6EF8rrecthR5Dkzon8Nwu78hRvfCKubJ14M5uBEwF6P\",\"675kPX9MHTjS2zt1qfr1NYHuzeLXfQM9H24wFSUt1Mp8\"]''
    \<and> length (http_payload mentions 7) < 512"
proof -
  have w: "config_wf apply_defaults"
    by (simp add: apply_defaults_def config_wf_def fits_def copy_string_def snprintf_str_def)
  have "mentions_text apply_defaults
      = ''[\"6EF8rrecthR5Dkzon8Nwu78hRvfCKubJ14M5uBEwF6P\",\"675kPX9MHTjS2zt1qfr1NYHuzeLXfQM9H24wFSUt1Mp8\"]''"
    by (simp add: mentions_text_def mentioned_def quoted_def apply_defaults_def copy_string_def snprintf_str_def)
  with http_request_complete [OF w, of 7] show ?thesis by metis
qed

section \<open>Receiving\<close>

lemma receive_chunks_ok:
  assumes "list_all fst chunks" and "chunks \<noteq> [] \<or> cb_data buf \<noteq> None"
  shows "receive_chunks chunks buf =
    \<lparr>cb_data = Some ((case cb_data buf of None \<Rightarrow> [] | Some d \<Rightarrow> d) @ concat (map snd chunks)),
     cb_length = cb_length buf + length (concat (map snd chunks))\<rparr>"
  using assms
proof (induction chunks arbitrary: buf)
  case Nil
  then show ?case by (cases "cb_data buf") (auto simp: receive_chunks_def)
next
  case (Cons c chunks)
  obtain ok ch where c: "c = (ok, ch)" by (cases c)
  have "receive_chunks (c # chunks) buf = receive_chunks chunks (snd (write_callback ok ch buf))"
    by (simp add: receive_chunks_def c)
  moreover have "cb_data (snd (write_callback ok ch buf)) \<noteq> None"
    "cb_data (snd (write_callback ok ch buf)) = Some ((case cb_data buf of None \<Rightarrow> [] | Some d \<Rightarrow> d) @ ch)"
    "cb_length (snd (write_callback ok ch buf)) = cb_length buf + length ch"
    using Cons.prems(1) c by (simp_all add: write_callback_def)
  ultimately show ?case using Cons.IH [of "snd (write_callback ok ch buf)"] Cons.prems(1) c by simp
qed

lemma receive_chunks_empty: "receive_chunks chunks \<lparr>cb_data = None, cb_length = 0\<rparr> =
    \<lparr>cb_data = Some (concat (map snd chunks)), cb_length = length (concat (map snd chunks))\<rparr>"
  if "list_all fst chunks" and "chunks \<noteq> []"
  using receive_chunks_ok [OF that(1), of "\<lparr>cb_data = None, cb_length = 0\<rparr>"] that(2) by simp

section \<open>Latency\<close>

lemma sdiv_1000_bounds: "1000 * (d sdiv 1000) - 1000 < (d :: int) \<and> d < 1000 * (d sdiv 1000) + 1000"
proof (cases "0 \<le> d")
  case True
  then have "d sdiv 1000 = d div 1000" by (auto simp: signed_divide_int_def sgn_if)
  then show ?thesis by linarith
next
  case False
  then have "d sdiv 1000 = - ((- d) div 1000)" by (simp add: signed_divide_int_def sgn_if abs_if)
  then show ?thesis by linarith
qed

lemma micro_error:
  fixes s d q :: int
  assumes "1000 * q - 1000 < d" and "d < 1000 * q + 1000"
  shows "\<bar>1000 * (s * 1000000 + q) - (s * 1000000000 + d)\<bar> < 1000"
proof -
  have "1000 * (s * 1000000 + q) - (s * 1000000000 + d) = 1000 * q - d" by simp
  with assms show ?thesis by linarith
qed

lemma latency_exact:
  assumes "ts_ok t" and "ts_ok u" and "ts_ns t \<le> ts_ns u" and "tv_sec u - tv_sec t \<le> 1000000000000"
  shows "\<bar>1000 * uint (poll_latency_us t u) - (ts_ns u - ts_ns t)\<bar> < 1000"
proof -
  obtain q where q: "q = (tv_nsec u - tv_nsec t) sdiv 1000" by blast
  obtain l where l: "l = (tv_sec u - tv_sec t) * 1000000 + q" by blast
  have b: "1000 * q - 1000 < tv_nsec u - tv_nsec t" "tv_nsec u - tv_nsec t < 1000 * q + 1000"
    unfolding q using sdiv_1000_bounds [of "tv_nsec u - tv_nsec t"] by blast+
  have ns: "ts_ns u - ts_ns t = (tv_sec u - tv_sec t) * 1000000000 + (tv_nsec u - tv_nsec t)"
    by (simp add: ts_ns_def algebra_simps)
  have err: "\<bar>1000 * l - (ts_ns u - ts_ns t)\<bar> < 1000" unfolding ns l by (rule micro_error [OF b])
  have n: "tv_nsec u - tv_nsec t < 1000000000" using assms(1,2) by (auto simp: ts_ok_def)
  have "0 \<le> ts_ns u - ts_ns t" using assms(3) by simp
  then have "0 \<le> l" using err by linarith
  moreover have "l < 2 ^ 64" using assms(4) b n l by simp
  ultimately have "uint (poll_latency_us t u) = l"
    unfolding poll_latency_us_def q [symmetric] l [symmetric] by (simp add: uint_word_of_int)
  with err show ?thesis by simp
qed

section \<open>A successful poll\<close>

lemma metrics_events_None [simp]: "(yurei_metrics_event ^^ n) None = None"
  by (induction n) (simp_all add: yurei_metrics_event_def)

lemma fold_max_le: "(h :: 'a::linorder) \<le> fold max xs h"
proof (induction xs arbitrary: h)
  case (Cons x xs)
  from Cons [of "max x h"] show ?case by (simp add: max_def split: if_splits)
qed simp

text \<open>
  C17. A poll that the node answers, with the body in any number of chunks, against an open queue
  with room: exactly the events of the body are appended, the slot the next request starts
  from becomes the highest seen, and the metrics count one successful request, the bytes
  of the body and each event.
\<close>

theorem poll_response_success:
  assumes "queue_inv (hp_queue p)" and "\<not> q_closed (hp_queue p)" and "pe_rc_ok env"
    and "list_all fst (pe_chunks env)" and "pe_chunks env \<noteq> []"
    and "json_parse cj (cstr (concat (map snd (pe_chunks env)))) = Some doc"
    and "events = delivered (message_actions cj oob (hp_config p) (cstr (concat (map snd (pe_chunks env)))))"
    and "length (queue_contents (hp_queue p)) + length events \<le> q_capacity (hp_queue p)"
  shows "\<exists>p'. poll_response cj oob queue_push env p = Some p'
    \<and> queue_contents (hp_queue p') = queue_contents (hp_queue p) @ events \<and> queue_inv (hp_queue p')
    \<and> hp_last_slot p' = fold max (map ev_slot events) (hp_last_slot p)
    \<and> hp_metrics p' = (yurei_metrics_event ^^ length events)
        (yurei_metrics_bytes (of_nat (length (concat (map snd (pe_chunks env)))))
          (yurei_metrics_request True (poll_latency_us (pe_start env) (pe_end env)) (hp_metrics p)))"
proof -
  let ?body = "concat (map snd (pe_chunks env))"
  obtain q' where q': "yurei_parser_handle_message cj oob queue_push (cstr ?body) (hp_config p) (hp_queue p)
        (Some (hp_last_slot p)) = Some (int (length events), q', Some (fold max (map ev_slot events) (hp_last_slot p)),
          warnings (message_actions cj oob (hp_config p) (cstr ?body)))"
      "queue_contents q' = queue_contents (hp_queue p) @ events" "queue_inv q'"
    using parser_ring.handle_message_open [OF assms(1,2,6) assms(8) [unfolded assms(7)], of "Some (hp_last_slot p)"]
    unfolding assms(7) [symmetric] by auto
  have "hp_last_slot p \<le> fold max (map ev_slot events) (hp_last_slot p)" by (rule fold_max_le)
  then show ?thesis
    using assms(3) q' receive_chunks_empty [OF assms(4,5)]
    by (auto simp: poll_response_def Let_def)
qed

definition sample_env :: poll_env where
  "sample_env = \<lparr>pe_clock = [], pe_start = \<lparr>tv_sec = 5, tv_nsec = 999999000\<rparr>, pe_end = \<lparr>tv_sec = 6, tv_nsec = 1000\<rparr>,
     pe_chunks = [(True, ''ms''), (True, ''g'')], pe_rc_ok = True, pe_error = []\<rparr>"

definition sample_poller :: "YureiEventQueue YureiHttpPoller" where
  "sample_poller = \<lparr>hp_running = True, hp_config = sample_config, hp_queue = empty_queue,
     hp_metrics = yurei_metrics_init (Some metrics_zero), hp_rate_limiter = None, hp_last_slot = 70, hp_log = []\<rparr>"

theorem poll_response_success_witness:
  "\<exists>p'. poll_response sample_cj (\<lambda>x. 0) queue_push sample_env sample_poller = Some p'
    \<and> queue_contents (hp_queue p') = sample_parsed \<and> hp_last_slot p' = 77"
  using poll_response_success [of sample_poller sample_env sample_cj sample_notification sample_parsed "\<lambda>x. 0"]
  by (simp add: sample_poller_def sample_env_def empty_queue_facts sample_parses sample_delivered sample_parsed_facts
      metrics_op_defs) (auto simp: max_def)

section \<open>Accounting over any run\<close>

definition requests_of :: "YureiMetrics option \<Rightarrow> u64 \<times> u64 \<times> u64" where
  "requests_of mo = (case mo of None \<Rightarrow> (0, 0, 0)
     | Some m \<Rightarrow> (requests_total m, requests_success m + requests_failed m, latency_count m))"

lemma requests_of_event: "requests_of (yurei_metrics_event mo) = requests_of mo"
  by (cases mo) (simp_all add: requests_of_def yurei_metrics_event_def)

lemma requests_of_events: "requests_of ((yurei_metrics_event ^^ n) mo) = requests_of mo"
  by (induction n) (simp_all add: requests_of_event)

lemma requests_of_bytes: "requests_of (yurei_metrics_bytes b mo) = requests_of mo"
  by (cases mo) (simp_all add: requests_of_def yurei_metrics_bytes_def)

lemma requests_of_request:
  "requests_of (yurei_metrics_request ok l (Some m)) =
     (requests_total m + 1, requests_success m + requests_failed m + 1, latency_count m + 1)"
  by (simp add: requests_of_def yurei_metrics_request_def Let_def)

lemma metrics_ops_Some:
  "\<exists>m'. (yurei_metrics_event ^^ n) (Some m) = Some m'" "\<exists>m'. yurei_metrics_bytes b (Some m) = Some m'"
  "\<exists>m'. yurei_metrics_request ok l (Some m) = Some m'"
  by (induction n) (auto simp: yurei_metrics_event_def yurei_metrics_bytes_def yurei_metrics_request_def)

definition one_more :: "u64 \<Rightarrow> YureiMetrics option \<Rightarrow> YureiMetrics option \<Rightarrow> bool" where
  "one_more n mo mo' = ((mo = None) = (mo' = None) \<and> (mo \<noteq> None \<longrightarrow>
     requests_of mo' = (fst (requests_of mo) + n, fst (snd (requests_of mo)) + n, snd (snd (requests_of mo)) + n)))"

lemma one_more_success:
  "one_more 1 mo ((yurei_metrics_event ^^ k) (yurei_metrics_bytes b (yurei_metrics_request ok l mo)))"
proof (cases mo)
  case None
  then show ?thesis by (simp add: one_more_def yurei_metrics_request_def yurei_metrics_bytes_def)
next
  case (Some m)
  have "(yurei_metrics_event ^^ k) (yurei_metrics_bytes b (yurei_metrics_request ok l mo)) \<noteq> None"
    unfolding Some using metrics_ops_Some by (metis option.distinct(1))
  then show ?thesis
    unfolding one_more_def requests_of_events requests_of_bytes unfolding Some requests_of_request
    by (simp add: requests_of_def)
qed

lemma one_more_failure: "one_more 1 mo (yurei_metrics_request ok l mo)"
proof (cases mo)
  case None
  then show ?thesis by (simp add: one_more_def yurei_metrics_request_def)
next
  case (Some m)
  then show ?thesis by (simp add: one_more_def requests_of_request) (simp add: requests_of_def yurei_metrics_request_def)
qed

lemma poll_response_accounts:
  assumes "poll_response cj oob push env p = Some p'"
  shows "hp_last_slot p \<le> hp_last_slot p' \<and> one_more 1 (hp_metrics p) (hp_metrics p')"
  using assms one_more_success [of "hp_metrics p" 0] one_more_success [of "hp_metrics p"] one_more_failure
  by (auto simp: poll_response_def Let_def split: option.splits if_splits prod.splits)

lemma one_more_trans: "one_more a x y \<Longrightarrow> one_more b y z \<Longrightarrow> one_more (a + b) x z"
  by (auto simp: one_more_def ac_simps)

lemma poll_response_config: "poll_response cj oob push env p = Some p' \<Longrightarrow> hp_config p' = hp_config p"
  by (auto simp: poll_response_def Let_def split: option.splits if_splits prod.splits)

lemma poll_request_accounts:
  assumes "poll_request cj oob push env p = Some (p', payload, us)"
  shows "hp_last_slot p \<le> hp_last_slot p' \<and> one_more 1 (hp_metrics p) (hp_metrics p')"
proof -
  obtain mentions where m: "build_mentions_array (hp_config p) 256 = Some mentions"
    using assms by (auto simp: poll_request_def split: option.splits)
  let ?p = "p\<lparr>hp_log := hp_log p @ [(YUREI_LOG_TRACE, ''HTTP request: '' @ http_payload mentions (hp_last_slot p))]\<rparr>"
  have "poll_response cj oob push env ?p = Some p'"
    using assms m by (auto simp: poll_request_def Let_def)
  from poll_response_accounts [OF this] show ?thesis by simp
qed

lemma poll_round_accounts:
  assumes "poll_round cj oob fl push env p = Some (p', payload, us)"
  shows "hp_last_slot p \<le> hp_last_slot p' \<and> one_more 1 (hp_metrics p) (hp_metrics p')"
  using assms by (auto simp: poll_round_def split: option.splits prod.splits dest!: poll_request_accounts)

text \<open>
  C26. Over any run of the thread, whatever the network, the JSON library and the queue do: the slot
  to poll from never goes back, and the metrics count every completed round exactly once, as
  one request, one latency and one success or failure.
\<close>

theorem poller_run_accounting:
  assumes "poller_loop cj oob fl push rounds p = Some (p', payloads)"
  shows "hp_last_slot p \<le> hp_last_slot p' \<and> (hp_metrics p = None \<longleftrightarrow> hp_metrics p' = None)
    \<and> (hp_metrics p \<noteq> None \<longrightarrow>
        requests_total (the (hp_metrics p')) = requests_total (the (hp_metrics p)) + of_nat (length payloads)
      \<and> requests_success (the (hp_metrics p')) + requests_failed (the (hp_metrics p'))
          = requests_success (the (hp_metrics p)) + requests_failed (the (hp_metrics p)) + of_nat (length payloads)
      \<and> latency_count (the (hp_metrics p')) = latency_count (the (hp_metrics p)) + of_nat (length payloads))"
proof -
  have "hp_last_slot p \<le> hp_last_slot p' \<and> one_more (of_nat (length payloads)) (hp_metrics p) (hp_metrics p')"
    using assms
  proof (induction rounds arbitrary: p payloads)
    case Nil
    then show ?case by (simp add: one_more_def)
  next
    case (Cons r rounds)
    obtain running env where r: "r = (running, env)" by (cases r)
    show ?case
    proof (cases running)
      case False
      with Cons.prems r show ?thesis by (simp add: one_more_def)
    next
      case True
      with Cons.prems r obtain p1 payload us rest where s: "poll_round cj oob fl push env p = Some (p1, payload, us)"
        "poller_loop cj oob fl push rounds p1 = Some (p', rest)" "payloads = payload # rest"
        by (auto split: option.splits)
      from Cons.IH [OF s(2)] poll_round_accounts [OF s(1)] one_more_trans [of 1 "hp_metrics p" "hp_metrics p1"] s(3)
      show ?thesis by fastforce
    qed
  qed
  then show ?thesis by (cases "hp_metrics p"; cases "hp_metrics p'") (auto simp: one_more_def requests_of_def)
qed

definition failing_env :: poll_env where
  "failing_env = sample_env\<lparr>pe_rc_ok := False, pe_error := ''Timeout was reached''\<rparr>"

theorem poller_run_accounting_witness:
  "\<exists>p' payload. poller_loop sample_cj (\<lambda>x. 0) dround queue_push [(True, failing_env), (False, failing_env)] sample_poller
      = Some (p', [payload]) \<and> 70 \<le> hp_last_slot p' \<and> requests_total (the (hp_metrics p')) = 1"
proof -
  have w: "config_wf sample_config"
    by (simp add: sample_config_def apply_defaults_def config_wf_def fits_def copy_string_def snprintf_str_def)
  obtain p' payload where run: "poller_loop sample_cj (\<lambda>x. 0) dround queue_push [(True, failing_env), (False, failing_env)]
      sample_poller = Some (p', [payload])"
    by (simp add: poll_round_def poll_request_def poll_response_def sample_poller_def failing_env_def
        build_mentions_exact [OF w] Let_def)
  from poller_run_accounting [OF run] run show ?thesis
    by (simp add: sample_poller_def yurei_metrics_init_def metrics_zero_def)
qed

text \<open>
  The latency that is recorded is the time between the two clock readings to within a
  microsecond, also when the nanoseconds of the second reading are the smaller ones and C's
  division rounds a negative quotient towards zero.
\<close>

theorem poll_latency_accurate:
  assumes "ts_ok t" and "ts_ok u" and "ts_ns t \<le> ts_ns u" and "tv_sec u - tv_sec t \<le> 1000000000000"
  shows "\<bar>1000 * uint (poll_latency_us t u) - (ts_ns u - ts_ns t)\<bar> < 1000"
  using latency_exact [OF assms] .

theorem poll_latency_accurate_witness:
  "\<bar>1000 * uint (poll_latency_us (pe_start sample_env) (pe_end sample_env)) - 2000\<bar> < 1000"
  using poll_latency_accurate [of "pe_start sample_env" "pe_end sample_env"]
  by (simp add: sample_env_def ts_ok_def ts_ns_def)

text \<open>An interval of 4294968 milliseconds, about 72 minutes, makes the thread sleep 704 microseconds.\<close>

lemma poll_interval_wraps: "usleep_us 4294968 = 704"
  by (simp add: usleep_us_def)

end
