(* ===== verification/Websocket_Client.thy ===== *)
theory Websocket_Client
  imports Parser Rpc_Request Backoff
begin

text \<open>
  \<open>src/websocket_client.c\<close> and \<open>include/websocket_client.h\<close>: the URL parser, the
  subscription message, the callback that libwebsockets calls and the loop that reconnects.
  libwebsockets is not part of the repository: what it does is the sequence of the callbacks
  it makes during one call, and whether \<open>lws_client_connect_via_info\<close> returns a connection.
\<close>

section \<open>The endpoint\<close>

record WsEndpoint =
  ws_address :: string
  ws_path :: string
  ws_port :: int
  ws_secure :: bool

text \<open>
  The pointers into the string are suffixes of it: \<open>port_sep < path_start\<close> compares their
  lengths. \<open>None\<close> is the return value -1.
\<close>

definition parse_endpoint :: "string \<Rightarrow> WsEndpoint option" where
  "parse_endpoint url =
     (case strstr url ''://'' of
        None \<Rightarrow> None
      | Some scheme_separator \<Rightarrow>
          let scheme_len = length url - length scheme_separator in
          if 8 \<le> scheme_len then None
          else
            let scheme = take scheme_len url in
            case (if strcaseeq scheme ''wss'' then Some (True, 443)
                  else if strcaseeq scheme ''ws'' then Some (False, 80)
                  else None) of
              None \<Rightarrow> None
            | Some (secure, default_port) \<Rightarrow>
                let host_start = drop 3 scheme_separator;
                    path_start = (case strchr host_start (CHR ''/'') of None \<Rightarrow> [] | Some p \<Rightarrow> p);
                    (host_len, port) =
                      (case strchr host_start (CHR '':'') of
                         Some port_sep \<Rightarrow>
                           if length path_start < length port_sep
                           then (length host_start - length port_sep, atoi (drop 1 port_sep))
                           else (length host_start - length path_start, default_port)
                       | None \<Rightarrow> (length host_start - length path_start, default_port))
                in if host_len = 0 \<or> 256 \<le> host_len then None
                   else Some \<lparr>ws_address = take host_len host_start,
                     ws_path = (if path_start \<noteq> [] then snprintf_str 256 path_start else ''/''),
                     ws_port = port, ws_secure = secure\<rparr>)"

section \<open>The subscription\<close>

definition ws_build_mentions_array :: "YureiConfig \<Rightarrow> nat \<Rightarrow> string option" where
  "ws_build_mentions_array config len =
     (if len = 0 then Some []
      else
        Option.bind (snprintf_at len ''['' ([], 0)) (\<lambda>st.
        Option.bind
          (if pumpfun_program config \<noteq> []
           then map_option (\<lambda>st. (st, False)) (snprintf_at len (''\"'' @ pumpfun_program config @ ''\"'') st)
           else Some (st, True)) (\<lambda>(st, first).
        Option.bind
          (if raydium_program config \<noteq> []
           then map_option (\<lambda>st. (st, False))
             (snprintf_at len ((if first then [] else '','') @ ''\"'' @ raydium_program config @ ''\"'') st)
           else Some (st, first)) (\<lambda>(st, first).
        Option.bind
          (if first then snprintf_at len (''\"'' @ pumpfun_program config @ ''\"'') st else Some st) (\<lambda>st.
        map_option fst (snprintf_at len '']'' st))))))"

record WsSessionData =
  outbound :: string
  outbound_len :: size_t
  send_pending :: bool

definition subscription_text :: "string \<Rightarrow> string" where
  "subscription_text mentions =
     ''{\"jsonrpc\":\"2.0\",\"id\":1,\"method\":\"logsSubscribe\",'' @
     ''\"params\":[{\"mentions\":'' @ mentions @ ''},{\"commitment\":\"confirmed\"}]}''"

text \<open>\<open>snprintf\<close> returns the length of the whole text, also when it cuts what it stores.\<close>

definition schedule_subscription :: "YureiConfig \<Rightarrow> WsSessionData \<Rightarrow> WsSessionData option" where
  "schedule_subscription config session =
     map_option (\<lambda>mentions.
       session\<lparr>outbound := snprintf_str 512 (subscription_text mentions),
         outbound_len := length (subscription_text mentions), send_pending := True\<rparr>)
       (ws_build_mentions_array config 256)"

section \<open>The client and its callback\<close>

text \<open>\<open>wc_wsi\<close> and \<open>wc_context\<close> say whether the pointers are not \<open>NULL\<close>.\<close>

record 'q YureiWebsocketClient =
  wc_context :: bool
  wc_wsi :: bool
  wc_queue :: 'q
  wc_config :: YureiConfig
  wc_running :: bool
  wc_connected :: bool
  wc_backoff_ms :: u32

text \<open>The reasons the callback handles; a received frame comes with its bytes.\<close>

datatype lws_reason =
    LWS_CLIENT_ESTABLISHED
  | LWS_CLIENT_CONNECTION_ERROR "string option"
  | LWS_CLOSED
  | LWS_CLIENT_CLOSED
  | LWS_CLIENT_RECEIVE string
  | LWS_CLIENT_WRITEABLE
  | LWS_OTHER

text \<open>
  What a callback leaves: \<open>g_client\<close>, the session, the texts given to \<open>lws_write\<close>, the number of
  calls of \<open>lws_callback_on_writable\<close>, by which the client asks for the callback in which it
  may write, and the log.
\<close>

record 'q ws_state =
  ws_client :: "'q YureiWebsocketClient option"
  ws_session :: "WsSessionData option"
  ws_written :: "string list"
  ws_requested :: nat
  ws_log :: "log_event list"

definition disconnect :: "'q ws_state \<Rightarrow> 'q ws_state" where
  "disconnect st = st\<lparr>ws_client := map_option (\<lambda>c. c\<lparr>wc_connected := False, wc_wsi := False\<rparr>) (ws_client st)\<rparr>"

text \<open>
  \<open>calloc_ok\<close> says whether the copy of a frame can be allocated. \<open>None\<close> when the call waits in
  the queue, or when a write would be outside a buffer.
\<close>

definition ws_callback ::
  "'j cjson \<Rightarrow> (rat \<Rightarrow> u64) \<Rightarrow> ('q \<Rightarrow> YureiEvent \<Rightarrow> (int \<times> 'q) option) \<Rightarrow> bool \<times> lws_reason
    \<Rightarrow> 'q ws_state \<Rightarrow> 'q ws_state option" where
  "ws_callback cj oob push call st =
     (case call of (calloc_ok, reason) \<Rightarrow>
      case reason of
        LWS_CLIENT_ESTABLISHED \<Rightarrow>
          (case ws_client st of
             None \<Rightarrow> Some st
           | Some c \<Rightarrow>
               let c = c\<lparr>wc_connected := True, wc_backoff_ms := ws_backoff_ms (wc_config c)\<rparr>;
                   msg = (YUREI_LOG_INFO, ''WebSocket connected to '' @ wss_endpoint (wc_config c))
               in case ws_session st of
                    None \<Rightarrow> Some (st\<lparr>ws_client := Some c, ws_requested := Suc (ws_requested st), ws_log := ws_log st @ [msg]\<rparr>)
                  | Some s \<Rightarrow>
                      map_option (\<lambda>s. st\<lparr>ws_client := Some c, ws_session := Some s,
                          ws_requested := Suc (ws_requested st), ws_log := ws_log st @ [msg]\<rparr>)
                        (schedule_subscription (wc_config c) s))
      | LWS_CLIENT_CONNECTION_ERROR text \<Rightarrow>
          Some (disconnect (st\<lparr>ws_log := ws_log st @ [(YUREI_LOG_WARN, ''WebSocket connection error: '' @
            (case text of None \<Rightarrow> ''unknown'' | Some t \<Rightarrow> t))]\<rparr>))
      | LWS_CLOSED \<Rightarrow> Some (disconnect st)
      | LWS_CLIENT_CLOSED \<Rightarrow> Some (disconnect st)
      | LWS_CLIENT_RECEIVE bytes \<Rightarrow>
          (case ws_client st of
             None \<Rightarrow> Some st
           | Some c \<Rightarrow>
               if \<not> calloc_ok then Some st
               else map_option (\<lambda>(count, queue, highest, msgs).
                      st\<lparr>ws_client := Some (c\<lparr>wc_queue := queue\<rparr>), ws_log := ws_log st @ msgs\<rparr>)
                    (yurei_parser_handle_message cj oob push (cstr bytes) (wc_config c) (wc_queue c) None))
      | LWS_CLIENT_WRITEABLE \<Rightarrow>
          (case ws_session st of
             None \<Rightarrow> Some st
           | Some s \<Rightarrow>
               if \<not> send_pending s then Some st
               else if 512 < outbound_len s then Some (st\<lparr>ws_session := Some (s\<lparr>send_pending := False\<rparr>)\<rparr>)
               else Some (st\<lparr>ws_session := Some (s\<lparr>send_pending := False\<rparr>),
                 ws_written := ws_written st @ [take (outbound_len s) (outbound s @ replicate 512 NUL)]\<rparr>))
      | LWS_OTHER \<Rightarrow> Some st)"

section \<open>The thread\<close>

text \<open>
  \<open>connect ep\<close> says whether \<open>lws_client_connect_via_info\<close> returns a connection for the address,
  port, path and TLS flag of \<open>ep\<close>; it then sets \<open>*pwsi\<close>, and gives the connection a session
  whose bytes are zero.
\<close>

definition zero_session :: WsSessionData where
  "zero_session = \<lparr>outbound = [], outbound_len = 0, send_pending = False\<rparr>"

definition establish_connection ::
  "(WsEndpoint \<Rightarrow> bool) \<Rightarrow> 'q YureiWebsocketClient \<Rightarrow> int \<times> 'q YureiWebsocketClient \<times> log_event list" where
  "establish_connection connect client =
     (case parse_endpoint (wss_endpoint (wc_config client)) of
        None \<Rightarrow> (- 1, client, [(YUREI_LOG_ERROR, ''Invalid WSS endpoint: '' @ wss_endpoint (wc_config client))])
      | Some endpoint \<Rightarrow>
          if \<not> connect endpoint then
            (- 1, client\<lparr>wc_wsi := False\<rparr>, [(YUREI_LOG_WARN, ''Unable to connect to '' @ wss_endpoint (wc_config client))])
          else (0, client\<lparr>wc_wsi := True\<rparr>, []))"

text \<open>
  The first half of a round: connect if there is no connection, and after a failure sleep and
  lengthen the delay. The second component is the argument of \<open>usleep\<close>, the third whether a
  connection was attempted.
\<close>

definition ws_reconnect ::
  "(WsEndpoint \<Rightarrow> bool) \<Rightarrow> 'q ws_state \<Rightarrow> 'q ws_state \<times> u32 list \<times> bool" where
  "ws_reconnect connect st =
     (case ws_client st of
        None \<Rightarrow> (st, [], False)
      | Some client \<Rightarrow>
          if \<not> wc_wsi client \<and> \<not> wc_connected client then
            (case establish_connection connect client of
               (rc, client, msgs) \<Rightarrow>
                 let st = st\<lparr>ws_log := ws_log st @ msgs\<rparr> in
                 if rc \<noteq> 0 then
                   (st\<lparr>ws_client := Some (client\<lparr>wc_backoff_ms :=
                       backoff_next (ws_backoff_max_ms (wc_config client)) (wc_backoff_ms client)\<rparr>)\<rparr>,
                    [usleep_us (wc_backoff_ms client)], True)
                 else (st\<lparr>ws_client := Some client, ws_session := Some zero_session\<rparr>, [], True))
          else (st, [], False))"

text \<open>The callbacks that one \<open>lws_service\<close> makes.\<close>

definition lws_service ::
  "'j cjson \<Rightarrow> (rat \<Rightarrow> u64) \<Rightarrow> ('q \<Rightarrow> YureiEvent \<Rightarrow> (int \<times> 'q) option) \<Rightarrow> (bool \<times> lws_reason) list
    \<Rightarrow> 'q ws_state \<Rightarrow> 'q ws_state option" where
  "lws_service cj oob push calls st = for_each (ws_callback cj oob push) calls st"

text \<open>
  The loop: one entry per round, with the value of \<open>running\<close>, the connection outcome and the
  callbacks. The result has the sleeps and the number of connection attempts.
\<close>

fun ws_loop ::
  "'j cjson \<Rightarrow> (rat \<Rightarrow> u64) \<Rightarrow> ('q \<Rightarrow> YureiEvent \<Rightarrow> (int \<times> 'q) option)
    \<Rightarrow> (bool \<times> (WsEndpoint \<Rightarrow> bool) \<times> (bool \<times> lws_reason) list) list
    \<Rightarrow> 'q ws_state \<Rightarrow> ('q ws_state \<times> u32 list \<times> nat) option" where
  "ws_loop cj oob push [] st = Some (st, [], 0)"
| "ws_loop cj oob push ((running, connect, calls) # rounds) st =
     (if \<not> running then Some (st, [], 0)
      else case ws_reconnect connect st of
        (st, sleeps, attempted) \<Rightarrow>
          (case lws_service cj oob push calls st of
             None \<Rightarrow> None
           | Some st \<Rightarrow>
               map_option (\<lambda>(st, sleeps', attempts). (st, sleeps @ sleeps', (if attempted then Suc attempts else attempts)))
                 (ws_loop cj oob push rounds st)))"

definition ws_thread ::
  "'j cjson \<Rightarrow> (rat \<Rightarrow> u64) \<Rightarrow> ('q \<Rightarrow> YureiEvent \<Rightarrow> (int \<times> 'q) option) \<Rightarrow> bool
    \<Rightarrow> (bool \<times> (WsEndpoint \<Rightarrow> bool) \<times> (bool \<times> lws_reason) list) list
    \<Rightarrow> 'q ws_state \<Rightarrow> ('q ws_state \<times> u32 list \<times> nat) option" where
  "ws_thread cj oob push context_ok rounds st =
     (if \<not> context_ok then
        Some (st\<lparr>ws_log := ws_log st @ [(YUREI_LOG_ERROR, ''Failed to initialize libwebsockets context'')],
          ws_client := map_option (\<lambda>c. c\<lparr>wc_context := False, wc_running := False\<rparr>) (ws_client st)\<rparr>, [], 0)
      else
        map_option (\<lambda>(st, sleeps, attempts).
            (st\<lparr>ws_client := map_option (\<lambda>c. c\<lparr>wc_context := False\<rparr>) (ws_client st)\<rparr>, sleeps, attempts))
          (ws_loop cj oob push rounds (st\<lparr>ws_client := map_option (\<lambda>c. c\<lparr>wc_context := True\<rparr>) (ws_client st)\<rparr>)))"

text \<open>
  \<open>yurei_ws_client_start\<close> on non-null arguments: the return code and \<open>g_client\<close> afterwards;
  a second client is refused. \<open>yurei_ws_client_stop\<close> joins the thread and clears it.
\<close>

definition yurei_ws_client_start ::
  "bool \<Rightarrow> YureiConfig \<Rightarrow> 'q \<Rightarrow> 'q YureiWebsocketClient option \<Rightarrow> int \<times> 'q YureiWebsocketClient option" where
  "yurei_ws_client_start create_ok config queue g_client =
     (if g_client \<noteq> None then (- 1, g_client)
      else
        let client = \<lparr>wc_context = False, wc_wsi = False, wc_queue = queue, wc_config = config, wc_running = True,
              wc_connected = False, wc_backoff_ms = ws_backoff_ms config\<rparr>
        in if \<not> create_ok then (- 1, None) else (0, Some client))"

definition yurei_ws_client_stop ::
  "'q YureiWebsocketClient \<Rightarrow> 'q YureiWebsocketClient \<times> 'q YureiWebsocketClient option" where
  "yurei_ws_client_stop client = (client\<lparr>wc_running := False\<rparr>, None)"

section \<open>Parsing an endpoint\<close>

lemma strstr_after:
  "c \<notin> set u \<Longrightarrow> strstr (u @ (c # p) @ t) (c # p) = Some ((c # p) @ t)"
  by (induction u) (auto simp: is_prefix_iff)

lemma strcaseeq_no_colon:
  assumes "strcaseeq s t" and "CHR '':'' \<notin> set (map tolower t)"
  shows "CHR '':'' \<notin> set s"
proof
  assume "CHR '':'' \<in> set s"
  then have "tolower (CHR '':'') \<in> set (map tolower s)" by (metis image_eqI list.set_map)
  moreover have "tolower (CHR '':'') = CHR '':''" by (simp add: tolower_def)
  moreover have "set (map tolower s) = set (map tolower t)" using assms(1) by (simp only: strcaseeq_def)
  ultimately show False using assms(2) by metis
qed

lemma strchr_prefix: "c \<notin> set u \<Longrightarrow> strchr (u @ t) c = strchr t c"
  by (induction u) auto

lemma show_nat_no_slash: "CHR ''/'' \<notin> set (show_nat n)"
  using show_nat_digits [of n] by (auto simp: list_all_iff isdigit_def)

lemma atoi_show_nat:
  assumes "n < 2 ^ 31" and "r = [] \<or> \<not> isdigit (hd r)"
  shows "atoi (show_nat n @ r) = int n"
proof -
  obtain d ds where d: "show_nat n = d # ds" by (cases "show_nat n") auto
  have v: "dec_value (digit_val d) ds = n" using dec_value_show_nat [of n] by (simp add: d)
  have nd: "d \<noteq> CHR ''-'' \<and> d \<noteq> CHR ''+'' \<and> \<not> isspace d"
    using show_nat_digits [of n] d isdigit_not_sign by simp
  have "takeWhile isdigit (show_nat n @ r) = show_nat n"
    using show_nat_digits [of n] assms(2) by (cases r) (auto simp: list_all_iff takeWhile_append)
  then have "atoi (show_nat n @ r) = sint (word_of_int (min (2 ^ 63 - 1) (int n)) :: 32 word)"
    using nd v by (simp add: atoi_def d)
  also have "min (2 ^ 63 - 1) (int n) = int n" using assms(1) by simp
  also have "sint (word_of_int (int n) :: 32 word) = int n"
    unfolding sint_sbintrunc' using assms(1) by (simp add: signed_take_bit_int_eq_self)
  finally show ?thesis .
qed

text \<open>A URL as a user writes it: \<open>scheme://host[:port][/path]\<close>.\<close>

definition ws_url :: "string \<Rightarrow> string \<Rightarrow> nat option \<Rightarrow> string \<Rightarrow> string" where
  "ws_url scheme host port path =
     scheme @ ''://'' @ host @ (case port of None \<Rightarrow> [] | Some n \<Rightarrow> '':'' @ show_nat n) @ path"

lemma host_strchr_slash:
  assumes "CHR ''/'' \<notin> set host" and "path = [] \<or> hd path = CHR ''/''"
  shows "(case strchr (host @ (case port of None \<Rightarrow> [] | Some n \<Rightarrow> '':'' @ show_nat n) @ path) (CHR ''/'') of
      None \<Rightarrow> [] | Some p \<Rightarrow> p) = path"
proof -
  have "CHR ''/'' \<notin> set (host @ (case port of None \<Rightarrow> [] | Some n \<Rightarrow> '':'' @ show_nat n))"
    using assms(1) show_nat_no_slash by (auto split: option.splits)
  then have "strchr ((host @ (case port of None \<Rightarrow> [] | Some n \<Rightarrow> '':'' @ show_nat n)) @ path) (CHR ''/'')
      = strchr path (CHR ''/'')" by (rule strchr_prefix)
  with assms(2) show ?thesis by (cases path) auto
qed

lemma host_strchr_colon:
  assumes "CHR '':'' \<notin> set host" and "path = [] \<or> hd path = CHR ''/''" and "\<forall>n. port = Some n \<longrightarrow> n < 2 ^ 31"
  shows "(case strchr (host @ (case port of None \<Rightarrow> [] | Some n \<Rightarrow> '':'' @ show_nat n) @ path) (CHR '':'') of
      Some port_sep \<Rightarrow>
        if length path < length port_sep
        then (length (host @ (case port of None \<Rightarrow> [] | Some n \<Rightarrow> '':'' @ show_nat n) @ path) - length port_sep,
          atoi (drop 1 port_sep))
        else (length (host @ (case port of None \<Rightarrow> [] | Some n \<Rightarrow> '':'' @ show_nat n) @ path) - length path, default_port)
    | None \<Rightarrow> (length (host @ (case port of None \<Rightarrow> [] | Some n \<Rightarrow> '':'' @ show_nat n) @ path) - length path, default_port))
    = (length host, case port of None \<Rightarrow> default_port | Some n \<Rightarrow> int n)"
proof (cases port)
  case None
  have "\<not> length path < length t" if "strchr path (CHR '':'') = Some t" for t
    using strchr_length [OF that] by simp
  with None assms(1) show ?thesis by (auto simp: strchr_prefix split: option.split)
next
  case (Some n)
  have "atoi (show_nat n @ path) = int n"
    using assms(2,3) Some by (intro atoi_show_nat) (auto simp: isdigit_def)
  with Some assms(1) show ?thesis by (simp add: strchr_prefix)
qed

lemma parse_endpoint_url:
  assumes "strcaseeq scheme (if secure then ''wss'' else ''ws'')" and "host \<noteq> []" and "length host < 256"
    and "CHR '':'' \<notin> set host" and "CHR ''/'' \<notin> set host" and "path = [] \<or> hd path = CHR ''/''"
    and "length path < 256" and "\<forall>n. port = Some n \<longrightarrow> n < 2 ^ 31"
  shows "parse_endpoint (ws_url scheme host port path) =
    Some \<lparr>ws_address = host, ws_path = (if path = [] then ''/'' else path),
      ws_port = (case port of None \<Rightarrow> if secure then 443 else 80 | Some n \<Rightarrow> int n), ws_secure = secure\<rparr>"
proof -
  let ?rest = "host @ (case port of None \<Rightarrow> [] | Some n \<Rightarrow> '':'' @ show_nat n) @ path"
  have nc: "CHR '':'' \<notin> set scheme"
    by (rule strcaseeq_no_colon [OF assms(1)]) (cases secure; simp add: tolower_def)
  have st: "strstr (ws_url scheme host port path) ''://'' = Some (''://'' @ ?rest)"
    unfolding ws_url_def using strstr_after [OF nc, of "''//''" ?rest] by simp
  have ln: "length (ws_url scheme host port path) - length (''://'' @ ?rest) = length scheme"
    by (simp add: ws_url_def)
  have tk: "take (length scheme) (ws_url scheme host port path) = scheme" by (simp add: ws_url_def)
  have sl: "length scheme = (if secure then 3 else 2)"
    using strcaseeq_length [OF assms(1)] by (cases secure) simp_all
  have sch: "(if strcaseeq scheme ''wss'' then Some (True, 443) else if strcaseeq scheme ''ws'' then Some (False, 80) else None)
      = Some (secure, if secure then 443 else 80)"
    using assms(1) strcaseeq_length [of scheme "''wss''"] sl by (cases secure) auto
  have dr: "drop 3 (''://'' @ ?rest) = ?rest" by simp
  show ?thesis
    unfolding parse_endpoint_def st option.case Let_def ln tk sch dr host_strchr_slash [OF assms(5,6)]
      host_strchr_colon [OF assms(4,6,8)] prod.case
    using assms(2,3,7) sl by simp
qed



section \<open>The subscription is sent, whole and once\<close>

lemma ws_mentions_exact:
  assumes "config_wf config"
  shows "ws_build_mentions_array config 256 = Some (mentions_text config)"
  using program_lengths [OF assms]
  by (simp add: ws_build_mentions_array_def mentions_text_def mentioned_def quoted_def snprintf_at_def Let_def)

lemma subscription_length: "config_wf config \<Longrightarrow> length (subscription_text (mentions_text config)) < 512"
  using mentions_length [of config] by (simp add: subscription_text_def)

lemma schedule_exact:
  assumes "config_wf config"
  shows "schedule_subscription config s = Some \<lparr>outbound = subscription_text (mentions_text config),
    outbound_len = length (subscription_text (mentions_text config)), send_pending = True\<rparr>"
  using subscription_length [OF assms] by (simp add: schedule_subscription_def ws_mentions_exact [OF assms])

definition quiet :: "bool \<times> lws_reason \<Rightarrow> bool" where
  "quiet call = (snd call \<noteq> LWS_CLIENT_ESTABLISHED)"

lemma for_each_Cons_Some: "for_each f (x # xs) s = Some t \<longleftrightarrow> (\<exists>s1. f x s = Some s1 \<and> for_each f xs s1 = Some t)"
  by (auto split: option.splits)

lemma callback_keeps_session:
  assumes "quiet call" and "snd call \<noteq> LWS_CLIENT_WRITEABLE" and "ws_callback cj oob push call st = Some st'"
  shows "ws_session st' = ws_session st \<and> ws_written st' = ws_written st"
  using assms by (auto simp: quiet_def ws_callback_def disconnect_def split: prod.splits lws_reason.splits option.splits if_splits)

lemma callback_idle_session:
  assumes "quiet call" and "ws_session st = Some s" and "\<not> send_pending s" and "ws_callback cj oob push call st = Some st'"
  shows "ws_session st' = Some s \<and> ws_written st' = ws_written st"
proof (cases "snd call = LWS_CLIENT_WRITEABLE")
  case True
  with assms show ?thesis by (auto simp: ws_callback_def split: prod.splits)
next
  case False
  with callback_keeps_session [OF assms(1) _ assms(4)] assms(2) show ?thesis by simp
qed

lemma idle_session_silent:
  assumes "list_all quiet calls" and "ws_session st = Some s" and "\<not> send_pending s"
    and "lws_service cj oob push calls st = Some st'"
  shows "ws_session st' = Some s \<and> ws_written st' = ws_written st"
  using assms unfolding lws_service_def
proof (induction calls arbitrary: st)
  case (Cons call calls)
  then obtain st1 where st1: "ws_callback cj oob push call st = Some st1" "for_each (ws_callback cj oob push) calls st1 = Some st'"
    by (auto simp: for_each_Cons_Some simp del: for_each.simps)
  have "ws_session st1 = Some s \<and> ws_written st1 = ws_written st"
    using callback_idle_session [OF _ Cons.prems(2,3) st1(1)] Cons.prems(1) by simp
  with Cons.IH [OF _ _ Cons.prems(3) st1(2)] Cons.prems(1) show ?case by simp
qed simp

lemma pending_session_sends:
  assumes "list_all quiet calls" and "ws_session st = Some s" and "send_pending s" and "outbound_len s = length (outbound s)"
    and "outbound_len s \<le> 512" and "lws_service cj oob push calls st = Some st'"
  shows "ws_written st' = ws_written st @ (if LWS_CLIENT_WRITEABLE \<in> set (map snd calls) then [outbound s] else [])"
  using assms unfolding lws_service_def
proof (induction calls arbitrary: st)
  case (Cons call calls)
  then obtain st1 where st1: "ws_callback cj oob push call st = Some st1" "for_each (ws_callback cj oob push) calls st1 = Some st'"
    by (auto simp: for_each_Cons_Some simp del: for_each.simps)
  show ?case
  proof (cases "snd call = LWS_CLIENT_WRITEABLE")
    case True
    then have "ws_session st1 = Some (s\<lparr>send_pending := False\<rparr>)" "ws_written st1 = ws_written st @ [outbound s]"
      using st1(1) Cons.prems(2-5) by (auto simp: ws_callback_def split: prod.splits)
    moreover have "list_all quiet calls" using Cons.prems(1) by simp
    then have "ws_written st' = ws_written st1"
      using idle_session_silent [OF _ calculation(1) _ st1(2) [folded lws_service_def]] by simp
    ultimately show ?thesis using True by simp
  next
    case False
    have "ws_session st1 = ws_session st \<and> ws_written st1 = ws_written st"
      using callback_keeps_session [OF _ False st1(1)] Cons.prems(1) by simp
    with Cons.IH [OF _ _ Cons.prems(3-5) st1(2)] Cons.prems(1,2) False show ?thesis by auto
  qed
qed simp

lemma quiet_requests_nothing:
  "list_all quiet calls \<Longrightarrow> lws_service cj oob push calls st = Some st' \<Longrightarrow> ws_requested st' = ws_requested st"
  unfolding lws_service_def
proof (induction calls arbitrary: st)
  case (Cons call calls)
  then obtain st1 where st1: "ws_callback cj oob push call st = Some st1" "for_each (ws_callback cj oob push) calls st1 = Some st'"
    by (auto simp: for_each_Cons_Some simp del: for_each.simps)
  have "quiet call" "list_all quiet calls" using Cons.prems(1) by simp_all
  then have "ws_requested st1 = ws_requested st"
    using st1(1) by (auto simp: quiet_def ws_callback_def disconnect_def split: prod.splits lws_reason.splits option.splits if_splits)
  with Cons.IH [OF \<open>list_all quiet calls\<close> st1(2)] show ?case by simp
qed simp

text \<open>
  C11. After a connection is established, and until the next one is, the client sends its
  subscription once, as soon as libwebsockets reports the socket as writeable, whole and with
  the configured programs, and nothing else, whatever other callbacks come; it has asked for
  that report, once.
\<close>

theorem subscription_sent_once:
  assumes "config_wf (wc_config c)" and "ws_client st = Some c" and "ws_session st = Some s"
    and "list_all quiet calls" and "lws_service cj oob push ((ok, LWS_CLIENT_ESTABLISHED) # calls) st = Some st'"
  shows "ws_written st' = ws_written st
    @ (if LWS_CLIENT_WRITEABLE \<in> set (map snd calls) then [subscription_text (mentions_text (wc_config c))] else [])
    \<and> ws_requested st' = Suc (ws_requested st)"
proof -
  let ?s = "\<lparr>outbound = subscription_text (mentions_text (wc_config c)),
    outbound_len = length (subscription_text (mentions_text (wc_config c))), send_pending = True\<rparr>"
  obtain st1 where st1: "ws_callback cj oob push (ok, LWS_CLIENT_ESTABLISHED) st = Some st1"
    "lws_service cj oob push calls st1 = Some st'"
    using assms(5) by (auto simp: lws_service_def split: option.splits)
  then have "ws_session st1 = Some ?s" "ws_written st1 = ws_written st" "ws_requested st1 = Suc (ws_requested st)"
    using assms(2,3) by (auto simp: ws_callback_def schedule_exact [OF assms(1)] Let_def)
  with pending_session_sends [OF assms(4) _ _ _ _ st1(2), of ?s] quiet_requests_nothing [OF assms(4) st1(2)]
    subscription_length [OF assms(1)] show ?thesis by simp
qed

definition sample_ws_client :: "YureiEventQueue YureiWebsocketClient" where
  "sample_ws_client = \<lparr>wc_context = True, wc_wsi = False, wc_queue = empty_queue, wc_config = sample_config,
     wc_running = True, wc_connected = False, wc_backoff_ms = 1000\<rparr>"

definition sample_ws_state :: "YureiEventQueue ws_state" where
  "sample_ws_state = \<lparr>ws_client = Some sample_ws_client, ws_session = Some zero_session, ws_written = [],
     ws_requested = 0, ws_log = []\<rparr>"

lemma sample_config_wf: "config_wf sample_config"
  by (simp add: sample_config_def apply_defaults_def config_wf_def fits_def copy_string_def snprintf_str_def)

definition client_wf :: "'q ws_state \<Rightarrow> bool" where
  "client_wf st = (\<forall>c. ws_client st = Some c \<longrightarrow> config_wf (wc_config c))"

text \<open>Only the reception of a frame can wait; the other callbacks always return.\<close>

lemma callback_returns:
  assumes "\<forall>bytes. snd call \<noteq> LWS_CLIENT_RECEIVE bytes" and "client_wf st"
  shows "\<exists>st'. ws_callback cj oob push call st = Some st' \<and> client_wf st'"
  using assms
  by (cases call; cases "snd call"; cases "ws_client st"; cases "ws_session st")
     (auto simp: ws_callback_def disconnect_def client_wf_def schedule_exact Let_def)

lemma service_returns:
  assumes "\<forall>call \<in> set calls. \<forall>bytes. snd call \<noteq> LWS_CLIENT_RECEIVE bytes" and "client_wf st"
  shows "\<exists>st'. lws_service cj oob push calls st = Some st' \<and> client_wf st'"
  using assms unfolding lws_service_def
proof (induction calls arbitrary: st)
  case (Cons call calls)
  then obtain st1 where st1: "ws_callback cj oob push call st = Some st1" "client_wf st1"
    using callback_returns [of call st cj oob push] by auto
  from Cons.IH [OF _ st1(2)] Cons.prems(1) st1(1) show ?case by simp
qed simp

theorem subscription_sent_once_witness:
  "\<exists>st'. lws_service sample_cj (\<lambda>x. 0) queue_push
      [(True, LWS_CLIENT_ESTABLISHED), (True, LWS_OTHER), (True, LWS_CLIENT_WRITEABLE), (True, LWS_CLIENT_WRITEABLE)]
      sample_ws_state = Some st'
    \<and> ws_written st' = [subscription_text (mentions_text sample_config)] \<and> ws_requested st' = 1"
proof -
  obtain st' where st': "lws_service sample_cj (\<lambda>x. 0) queue_push
      [(True, LWS_CLIENT_ESTABLISHED), (True, LWS_OTHER), (True, LWS_CLIENT_WRITEABLE), (True, LWS_CLIENT_WRITEABLE)]
      sample_ws_state = Some st'"
    using service_returns [of "[(True, LWS_CLIENT_ESTABLISHED), (True, LWS_OTHER), (True, LWS_CLIENT_WRITEABLE),
        (True, LWS_CLIENT_WRITEABLE)]" sample_ws_state sample_cj "\<lambda>x. 0" queue_push]
    by (auto simp: client_wf_def sample_ws_state_def sample_ws_client_def sample_config_wf)
  then have "ws_written st' = [subscription_text (mentions_text sample_config)] \<and> ws_requested st' = 1"
    using subscription_sent_once [OF _ _ _ _ st', of sample_ws_client zero_session]
    by (simp add: sample_ws_state_def sample_ws_client_def sample_config_wf quiet_def)
  with st' show ?thesis by blast
qed

section \<open>Received frames\<close>

text \<open>
  Each received frame is parsed for itself: a message that arrives in two parts, none of which
  is a JSON text of its own, leaves two warnings and no event.
\<close>

lemma fragments_parsed_apart:
  assumes "ws_client st = Some c" and "json_parse cj (cstr a) = None" and "json_parse cj (cstr b) = None"
  shows "lws_service cj oob push [(True, LWS_CLIENT_RECEIVE a), (True, LWS_CLIENT_RECEIVE b)] st
    = Some (st\<lparr>ws_client := Some c,
        ws_log := ws_log st @ replicate 2 (YUREI_LOG_WARN, ''Failed to parse JSON payload'')\<rparr>)"
  using assms by (simp add: lws_service_def ws_callback_def yurei_parser_handle_message_def Let_def numeral_2_eq_2)

section \<open>Reconnecting\<close>

lemma reconnect_fails:
  assumes "ws_client st = Some c" and "\<not> wc_wsi c" and "\<not> wc_connected c"
  shows "\<exists>st1 c'. ws_reconnect (\<lambda>ep. False) st = (st1, [usleep_us (wc_backoff_ms c)], True) \<and> ws_client st1 = Some c'
    \<and> \<not> wc_wsi c' \<and> \<not> wc_connected c' \<and> wc_config c' = wc_config c
    \<and> wc_backoff_ms c' = backoff_next (ws_backoff_max_ms (wc_config c)) (wc_backoff_ms c)"
  using assms by (auto simp: ws_reconnect_def establish_connection_def Let_def split: option.split)

lemma failing_rounds:
  assumes "ws_client st = Some c" and "\<not> wc_wsi c" and "\<not> wc_connected c"
  shows "\<exists>st'. ws_loop cj oob push (replicate k (True, \<lambda>ep. False, [])) st
    = Some (st', map (\<lambda>i. usleep_us ((backoff_next (ws_backoff_max_ms (wc_config c)) ^^ i) (wc_backoff_ms c))) [0..<k], k)"
  using assms
proof (induction k arbitrary: st c)
  case (Suc k)
  obtain st1 c' where r: "ws_reconnect (\<lambda>ep. False) st = (st1, [usleep_us (wc_backoff_ms c)], True)"
    and c': "ws_client st1 = Some c'" "\<not> wc_wsi c'" "\<not> wc_connected c'" "wc_config c' = wc_config c"
      "wc_backoff_ms c' = backoff_next (ws_backoff_max_ms (wc_config c)) (wc_backoff_ms c)"
    using reconnect_fails [OF Suc.prems] by blast
  obtain st' where s: "ws_loop cj oob push (replicate k (True, \<lambda>ep. False, [])) st1
    = Some (st', map (\<lambda>i. usleep_us ((backoff_next (ws_backoff_max_ms (wc_config c')) ^^ i) (wc_backoff_ms c'))) [0..<k], k)"
    using Suc.IH [OF c'(1-3)] by auto
  have "map (\<lambda>i. usleep_us ((backoff_next m ^^ i) b)) [0..<Suc k]
      = usleep_us b # map (\<lambda>i. usleep_us ((backoff_next m ^^ i) (backoff_next m b))) [0..<k]" for m b
    by (simp add: upt_conv_Cons map_Suc_upt [symmetric] funpow_Suc_right del: funpow.simps upt_Suc)
  then show ?case using s r c'(4,5) by (simp add: lws_service_def)
qed simp

text \<open>
  C24. While no connection can be opened the \<open>i\<close>-th sleep is the delay times \<open>2 ^ i\<close>, cut at the
  configured maximum, if the delay is not above the maximum; a larger delay is never cut and
  stays as it is. The microseconds are 32 bits wide: a delay from 4294968 ms on is slept
  modulo \<open>2 ^ 32\<close> of them. The maximum is at most \<open>2 ^ 31\<close> milliseconds; above it the doubling
  itself can wrap (\<open>backoff_can_wrap\<close>).
\<close>

theorem ws_backoff_schedule:
  assumes "ws_client st = Some c" and "\<not> wc_wsi c" and "\<not> wc_connected c"
    and "unat (ws_backoff_max_ms (wc_config c)) \<le> 2 ^ 31"
  shows "\<exists>st' sleeps. ws_loop cj oob push (replicate k (True, \<lambda>ep. False, [])) st = Some (st', sleeps, k)
    \<and> map unat sleeps
      = map (\<lambda>i. 1000 * (if wc_backoff_ms c \<le> ws_backoff_max_ms (wc_config c)
              then min (unat (wc_backoff_ms c) * 2 ^ i) (unat (ws_backoff_max_ms (wc_config c)))
              else unat (wc_backoff_ms c)) mod 2 ^ 32) [0..<k]"
proof -
  have l: "backoff_limit (ws_backoff_max_ms (wc_config c))" using assms(4) by unfold_locales
  have "unat ((backoff_next (ws_backoff_max_ms (wc_config c)) ^^ i) (wc_backoff_ms c))
      = (if wc_backoff_ms c \<le> ws_backoff_max_ms (wc_config c)
         then min (unat (wc_backoff_ms c) * 2 ^ i) (unat (ws_backoff_max_ms (wc_config c))) else unat (wc_backoff_ms c))" for i
    using backoff_limit.iterate_unat [OF l, of "wc_backoff_ms c" i] backoff_limit.above_limit [OF l, of "wc_backoff_ms c" i]
    by (simp add: word_le_nat)
  with failing_rounds [OF assms(1-3), of cj oob push k] show ?thesis by (auto simp: usleep_unat_mod)
qed

theorem ws_backoff_schedule_witness:
  "\<exists>st' sleeps. ws_loop sample_cj (\<lambda>x. 0) queue_push (replicate 8 (True, \<lambda>ep. False, [])) sample_ws_state = Some (st', sleeps, 8)
    \<and> map unat sleeps = [1000000, 2000000, 4000000, 8000000, 16000000, 32000000, 60000000, 60000000]"
proof -
  have c: "ws_backoff_max_ms sample_config = 60000" by (simp add: sample_config_def apply_defaults_def)
  show ?thesis
    using ws_backoff_schedule [of sample_ws_state sample_ws_client sample_cj "\<lambda>x. 0" queue_push 8]
    by (simp add: sample_ws_state_def sample_ws_client_def c upt_rec del: ws_loop.simps)
qed

lemma refused_rounds:
  assumes "ws_client st = Some c" and "\<not> wc_wsi c" and "\<not> wc_connected c"
    and "parse_endpoint (wss_endpoint (wc_config c)) \<noteq> None"
  shows "\<exists>st' c'. ws_loop cj oob push (replicate k (True, \<lambda>ep. True, [(ok, LWS_CLIENT_CONNECTION_ERROR text)])) st
      = Some (st', [], k)
    \<and> ws_client st' = Some c' \<and> wc_backoff_ms c' = wc_backoff_ms c"
  using assms
proof (induction k arbitrary: st c)
  case (Suc k)
  obtain ep where ep: "parse_endpoint (wss_endpoint (wc_config c)) = Some ep" using Suc.prems(4) by auto
  let ?c1 = "c\<lparr>wc_wsi := True, wc_connected := False, wc_wsi := False\<rparr>"
  obtain st1 where st1: "ws_reconnect (\<lambda>ep. True) st = (st1, [], True)" "ws_client st1 = Some (c\<lparr>wc_wsi := True\<rparr>)"
    using Suc.prems ep by (auto simp: ws_reconnect_def establish_connection_def Let_def)
  obtain st2 where st2: "lws_service cj oob push [(ok, LWS_CLIENT_CONNECTION_ERROR text)] st1 = Some st2"
    "ws_client st2 = Some ?c1"
    using st1(2) by (auto simp: lws_service_def ws_callback_def disconnect_def)
  from Suc.IH [of st2 ?c1] st2 Suc.prems(4)
  obtain st' c' where s: "ws_loop cj oob push (replicate k (True, \<lambda>ep. True, [(ok, LWS_CLIENT_CONNECTION_ERROR text)])) st2
      = Some (st', [], k)" "ws_client st' = Some c'" "wc_backoff_ms c' = wc_backoff_ms c" by auto
  show ?case using s st1(1) st2(1) by (intro exI [of _ st'] exI [of _ c']) simp
qed auto

text \<open>
  C32. A connection that libwebsockets first hands out and then reports as failed, which is how an
  unreachable node shows up, is tried again in the very next round: over any number of such
  failures the thread never sleeps and the delay never grows.
\<close>

theorem connection_errors_skip_backoff:
  assumes "ws_client st = Some c" and "\<not> wc_wsi c" and "\<not> wc_connected c"
    and "parse_endpoint (wss_endpoint (wc_config c)) \<noteq> None"
  shows "\<exists>st' c'. ws_loop cj oob push (replicate k (True, \<lambda>ep. True, [(ok, LWS_CLIENT_CONNECTION_ERROR text)])) st
      = Some (st', [], k)
    \<and> ws_client st' = Some c' \<and> wc_backoff_ms c' = wc_backoff_ms c"
  by (rule refused_rounds [OF assms])

lemma sample_endpoint: "parse_endpoint (wss_endpoint sample_config) \<noteq> None"
proof -
  have "wss_endpoint sample_config = ws_url ''wss'' ''mainnet.helius-rpc.com'' None []"
    by (simp add: sample_config_def apply_defaults_def copy_string_def snprintf_str_def ws_url_def)
  with parse_endpoint_url [of "''wss''" True "''mainnet.helius-rpc.com''" "[]" None] show ?thesis by simp
qed

theorem connection_errors_skip_backoff_witness:
  "\<exists>st' c'. ws_loop sample_cj (\<lambda>x. 0) queue_push
      (replicate 1000 (True, \<lambda>ep. True, [(True, LWS_CLIENT_CONNECTION_ERROR (Some ''conn fail''))])) sample_ws_state
      = Some (st', [], 1000)
    \<and> ws_client st' = Some c' \<and> wc_backoff_ms c' = 1000"
  using connection_errors_skip_backoff [of sample_ws_state sample_ws_client sample_cj "\<lambda>x. 0" queue_push 1000 True
      "Some ''conn fail''"] sample_endpoint
  by (simp add: sample_ws_state_def sample_ws_client_def del: ws_loop.simps)

end
