(* ===== verification/Db_Writer.thy ===== *)
theory Db_Writer
  imports Event_Queue Config Backoff
begin

text \<open>
  \<open>src/db_writer.c\<close> and \<open>include/db_writer.h\<close>: the thread that pops events and inserts
  them into PostgreSQL. The client library libpq and the server are a parameter, a record of
  the calls the code makes on the state \<open>'db\<close> of the database. The loop of the thread and the
  loop of \<open>wait_for_connection\<close> need not end: the first runs along the list of the values
  that its reads of \<open>running\<close> return, the second on fuel.
\<close>

section \<open>What the code uses of libpq\<close>

text \<open>
  One \<open>PQexecParams\<close> call: the query, the texts of the first two parameters and the binary
  third one. The result says whether the status is \<open>PGRES_COMMAND_OK\<close>. \<open>pg_connect\<close> is
  \<open>PQconnectdb\<close> with the test of \<open>PQstatus\<close>.
\<close>

record pg_statement =
  st_query :: string
  st_slot :: string
  st_signature :: string
  st_raw :: "u8 list"

record 'db postgres =
  pg_connect :: "string \<Rightarrow> 'db \<Rightarrow> bool \<times> 'db"
  pg_exec :: "pg_statement \<Rightarrow> 'db \<Rightarrow> bool \<times> 'db"
  pg_error :: "'db \<Rightarrow> string"

section \<open>Inserting an event\<close>

definition table_for_event :: "YureiEventKind \<Rightarrow> YureiConfig \<Rightarrow> string option" where
  "table_for_event kind config =
     (case kind of
        YUREI_EVENT_KIND_PUMPFUN \<Rightarrow> if pumpfun_table config \<noteq> [] then Some (pumpfun_table config) else None
      | YUREI_EVENT_KIND_RAYDIUM \<Rightarrow> if raydium_table config \<noteq> [] then Some (raydium_table config) else None
      | _ \<Rightarrow> None)"

definition insert_query :: "string \<Rightarrow> string" where
  "insert_query table = snprintf_str 256
     (''INSERT INTO '' @ table @ '' (slot, signature, raw_log) VALUES ($1, $2, $3)'' @ '' ON CONFLICT DO NOTHING'')"

text \<open>The first \<open>data_len\<close> bytes of the array \<open>data\<close>, which is zero behind the written ones.\<close>

definition event_bytes :: "YureiEvent \<Rightarrow> u8 list" where
  "event_bytes event = take (ev_data_len event) (ev_data event @ replicate (ev_data_len event) 0)"

definition event_statement :: "string \<Rightarrow> YureiEvent \<Rightarrow> pg_statement" where
  "event_statement table event =
     \<lparr>st_query = insert_query table, st_slot = snprintf_str 32 (show_nat (unat (ev_slot event))),
      st_signature = ev_signature event, st_raw = event_bytes event\<rparr>"

definition insert_event ::
  "'db postgres \<Rightarrow> YureiEvent \<Rightarrow> YureiConfig \<Rightarrow> 'db \<Rightarrow> bool \<times> 'db \<times> log_event list" where
  "insert_event pg event config db =
     (case table_for_event (ev_kind event) config of
        None \<Rightarrow> (True, db, [])
      | Some table \<Rightarrow>
          (case pg_exec pg (event_statement table event) db of
             (ok, db') \<Rightarrow> if \<not> ok then (False, db', [(YUREI_LOG_WARN, ''DB insert failed: '' @ pg_error pg db')])
                         else (True, db', [])))"

section \<open>Connecting\<close>

text \<open>
  \<open>None\<close> when the fuel, the number of attempts, is used up. The result carries the arguments
  of the calls of \<open>usleep\<close>.
\<close>

fun connect_loop ::
  "'db postgres \<Rightarrow> string \<Rightarrow> nat \<Rightarrow> u32 \<Rightarrow> 'db \<Rightarrow> ('db \<times> u32 list \<times> log_event list) option" where
  "connect_loop pg conninfo 0 backoff_ms db = None"
| "connect_loop pg conninfo (Suc fuel) backoff_ms db =
     (case pg_connect pg conninfo db of
        (ok, db') \<Rightarrow>
          if ok then Some (db', [], [])
          else map_option (\<lambda>(db'', sleeps, msgs).
                 (db'', usleep_us backoff_ms # sleeps, (YUREI_LOG_WARN, ''DB connection failed: '' @ pg_error pg db') # msgs))
               (connect_loop pg conninfo fuel (backoff_next 30000 backoff_ms) db'))"

definition wait_for_connection ::
  "'db postgres \<Rightarrow> nat \<Rightarrow> string \<Rightarrow> 'db \<Rightarrow> ('db \<times> u32 list \<times> log_event list) option" where
  "wait_for_connection pg fuel conninfo db = connect_loop pg conninfo fuel 1000 db"

section \<open>The thread\<close>

text \<open>The pointers to the configuration and the queue are what they pointed to at the start.\<close>

record YureiDbWriter =
  w_running :: bool
  w_config :: YureiConfig
  w_shared_queue :: YureiEventQueue

text \<open>
  The state the thread works on; \<open>w_sent\<close> records the events it took from the queue and
  handed to \<open>insert_event\<close>, with the result.
\<close>

record 'db writer_state =
  w_queue :: YureiEventQueue
  w_db :: 'db
  w_log :: "log_event list"
  w_sent :: "(YureiEvent \<times> bool) list"

datatype writer_status = StillRunning | Finished | WaitingForEvent | Reconnecting

text \<open>\<open>readings\<close> are the values the successive reads of \<open>writer->running\<close> return.\<close>

fun writer_loop ::
  "'db postgres \<Rightarrow> nat \<Rightarrow> YureiConfig \<Rightarrow> bool list \<Rightarrow> 'db writer_state \<Rightarrow> writer_status \<times> 'db writer_state" where
  "writer_loop pg fuel config [] s = (StillRunning, s)"
| "writer_loop pg fuel config (running # readings) s =
     (if \<not> running then (Finished, s)
      else case queue_pop (w_queue s) of
        None \<Rightarrow> (WaitingForEvent, s)
      | Some (rc, event, queue) \<Rightarrow>
          if rc \<noteq> 0 then (Finished, s\<lparr>w_queue := queue\<rparr>)
          else
            (case insert_event pg (the event) config (w_db s) of
               (ok, db, msgs) \<Rightarrow>
                 let s = s\<lparr>w_queue := queue, w_db := db, w_log := w_log s @ msgs, w_sent := w_sent s @ [(the event, ok)]\<rparr> in
                 if ok then writer_loop pg fuel config readings s
                 else
                   let s = s\<lparr>w_log := w_log s @ [(YUREI_LOG_WARN, ''Insert failed; reconnecting'')]\<rparr> in
                   (case wait_for_connection pg fuel (pg_conninfo config) (w_db s) of
                      None \<Rightarrow> (Reconnecting, s)
                    | Some (db, sleeps, msgs) \<Rightarrow>
                        writer_loop pg fuel config readings (s\<lparr>w_db := db, w_log := w_log s @ msgs\<rparr>))))"

definition writer_thread ::
  "'db postgres \<Rightarrow> nat \<Rightarrow> YureiConfig \<Rightarrow> bool list \<Rightarrow> YureiEventQueue \<Rightarrow> 'db \<Rightarrow> writer_status \<times> 'db writer_state" where
  "writer_thread pg fuel config readings queue db =
     (case wait_for_connection pg fuel (pg_conninfo config) db of
        None \<Rightarrow> (Reconnecting, \<lparr>w_queue = queue, w_db = db, w_log = [], w_sent = []\<rparr>)
      | Some (db, sleeps, msgs) \<Rightarrow>
          writer_loop pg fuel config readings
            \<lparr>w_queue = queue, w_db = db, w_log = msgs @ [(YUREI_LOG_INFO, ''Connected to PostgreSQL'')], w_sent = []\<rparr>)"

text \<open>
  \<open>yurei_db_writer_start\<close> on non-null arguments, given whether \<open>pthread_create\<close> succeeds:
  the return code and the field \<open>running\<close>. \<open>yurei_db_writer_stop\<close> clears it and joins.
\<close>

definition yurei_db_writer_start :: "bool \<Rightarrow> YureiConfig \<Rightarrow> YureiEventQueue \<Rightarrow> int \<times> YureiDbWriter" where
  "yurei_db_writer_start create_ok config queue =
     (let writer = \<lparr>w_running = True, w_config = config, w_shared_queue = queue\<rparr> in
      if \<not> create_ok then (- 1, writer\<lparr>w_running := False\<rparr>) else (0, writer))"


section \<open>Statements\<close>

lemma insert_query_exact:
  assumes "length table < 64"
  shows "insert_query table
    = ''INSERT INTO '' @ table @ '' (slot, signature, raw_log) VALUES ($1, $2, $3) ON CONFLICT DO NOTHING''"
  using assms by (simp add: insert_query_def)

lemma table_length: "config_wf config \<Longrightarrow> table_for_event kind config = Some t \<Longrightarrow> length t < 64"
  by (auto simp: table_for_event_def config_wf_def fits_def split: YureiEventKind.splits if_splits)

lemma slot_text: "snprintf_str 32 (show_nat (unat (w :: u64))) = show_nat (unat w)"
  using show_u64_length [of w] by simp

lemma event_bytes_all: "ev_data_len e = length (ev_data e) \<Longrightarrow> event_bytes e = ev_data e"
  by (simp add: event_bytes_def)

text \<open>
  C27. An event whose kind has a table is sent as one statement: the query names that table and
  is not cut by its buffer, the slot parameter reads back as the slot, the signature is the
  event's and the binary parameter is exactly the payload. An event without a table is
  dropped as if it had been stored.
\<close>

theorem insert_event_statement:
  assumes "config_wf config" and "ev_data_len e = length (ev_data e)"
  shows "(table_for_event (ev_kind e) config = None \<longrightarrow> insert_event pg e config db = (True, db, []))
    \<and> (\<forall>t. table_for_event (ev_kind e) config = Some t \<longrightarrow>
        (\<exists>st. st_query st
            = ''INSERT INTO '' @ t @ '' (slot, signature, raw_log) VALUES ($1, $2, $3) ON CONFLICT DO NOTHING''
          \<and> strtoul (st_slot st) = (ev_slot e, []) \<and> st_signature st = ev_signature e \<and> st_raw st = ev_data e
          \<and> (insert_event pg e config db = (case pg_exec pg st db of
                 (ok, db') \<Rightarrow> if ok then (True, db', []) else
                   (False, db', [(YUREI_LOG_WARN, ''DB insert failed: '' @ pg_error pg db')])))))"
proof (intro conjI allI impI)
  show "insert_event pg e config db = (True, db, [])" if "table_for_event (ev_kind e) config = None"
    using that by (simp add: insert_event_def)
next
  fix t
  assume t: "table_for_event (ev_kind e) config = Some t"
  have "strtoul (st_slot (event_statement t e)) = (ev_slot e, [])"
    by (simp add: event_statement_def slot_text strtoul_show_nat)
  moreover have "insert_event pg e config db = (case pg_exec pg (event_statement t e) db of
      (ok, db') \<Rightarrow> if ok then (True, db', []) else
        (False, db', [(YUREI_LOG_WARN, ''DB insert failed: '' @ pg_error pg db')]))"
    by (simp add: insert_event_def t split: prod.split)
  ultimately show "\<exists>st. st_query st
            = ''INSERT INTO '' @ t @ '' (slot, signature, raw_log) VALUES ($1, $2, $3) ON CONFLICT DO NOTHING''
          \<and> strtoul (st_slot st) = (ev_slot e, []) \<and> st_signature st = ev_signature e \<and> st_raw st = ev_data e
          \<and> (insert_event pg e config db = (case pg_exec pg st db of
                 (ok, db') \<Rightarrow> if ok then (True, db', []) else
                   (False, db', [(YUREI_LOG_WARN, ''DB insert failed: '' @ pg_error pg db')])))"
    using insert_query_exact [OF table_length [OF assms(1) t]] event_bytes_all [OF assms(2)]
    by (intro exI [of _ "event_statement t e"]) (simp add: event_statement_def)
qed

text \<open>A server for examples that refuses every statement.\<close>

definition refusing_pg :: "unit postgres" where
  "refusing_pg = \<lparr>pg_connect = (\<lambda>c u. (True, u)), pg_exec = (\<lambda>st u. (False, u)), pg_error = (\<lambda>u. ''no'')\<rparr>"

theorem insert_event_statement_witness:
  "fst (insert_event refusing_pg (zero_event\<lparr>ev_kind := YUREI_EVENT_KIND_RAYDIUM, ev_data := [7], ev_data_len := 1\<rparr>)
      apply_defaults ()) = False
   \<and> insert_event refusing_pg (zero_event\<lparr>ev_kind := YUREI_EVENT_KIND_UNKNOWN, ev_data := [], ev_data_len := 0\<rparr>)
      apply_defaults () = (True, (), [])"
proof -
  have t: "table_for_event YUREI_EVENT_KIND_RAYDIUM apply_defaults = Some ''raydium_swaps''"
    "table_for_event YUREI_EVENT_KIND_UNKNOWN apply_defaults = None"
    by (simp_all add: table_for_event_def apply_defaults_def copy_string_def snprintf_str_def)
  show ?thesis
    using insert_event_statement [OF config_wf_defaults,
        of "zero_event\<lparr>ev_kind := YUREI_EVENT_KIND_RAYDIUM, ev_data := [7], ev_data_len := 1\<rparr>" refusing_pg "()"]
      insert_event_statement [OF config_wf_defaults,
        of "zero_event\<lparr>ev_kind := YUREI_EVENT_KIND_UNKNOWN, ev_data := [], ev_data_len := 0\<rparr>" refusing_pg "()"]
    by (auto simp: t refusing_pg_def)
qed

section \<open>The back-off schedule\<close>

interpretation db_backoff: backoff_limit 30000
  by unfold_locales simp

text \<open>The state of the database after \<open>n\<close> attempts to connect.\<close>

definition db_after :: "'db postgres \<Rightarrow> string \<Rightarrow> nat \<Rightarrow> 'db \<Rightarrow> 'db" where
  "db_after pg conninfo n = ((\<lambda>db. snd (pg_connect pg conninfo db)) ^^ n)"

definition db_sleep :: "nat \<Rightarrow> nat" where
  "db_sleep n = 1000 * min (1000 * 2 ^ n) 30000"

lemma connect_loop_schedule:
  assumes "\<forall>i < k. \<not> fst (pg_connect pg c (db_after pg c i db))" and "fst (pg_connect pg c (db_after pg c k db))"
    and "k < fuel"
  shows "\<exists>msgs. connect_loop pg c fuel b db
    = Some (db_after pg c (Suc k) db, map (\<lambda>i. usleep_us ((backoff_next 30000 ^^ i) b)) [0..<k], msgs)"
  using assms
proof (induction k arbitrary: fuel b db)
  case 0
  then obtain f where f: "fuel = Suc f" by (cases fuel) auto
  obtain db' where "pg_connect pg c db = (True, db')"
    using 0 by (cases "pg_connect pg c db") (simp add: db_after_def)
  then show ?case by (simp add: f db_after_def)
next
  case (Suc k)
  then obtain f where f: "fuel = Suc f" by (cases fuel) auto
  obtain db' where db': "pg_connect pg c db = (False, db')"
    using Suc.prems(1) by (cases "pg_connect pg c db") (force simp: db_after_def)
  have shift: "db_after pg c (Suc i) db = db_after pg c i db'" for i
    using db' by (simp add: db_after_def funpow_Suc_right del: funpow.simps)
  obtain msgs where "connect_loop pg c f (backoff_next 30000 b) db'
      = Some (db_after pg c (Suc k) db', map (\<lambda>i. usleep_us ((backoff_next 30000 ^^ i) (backoff_next 30000 b))) [0..<k], msgs)"
    using Suc.IH [of db' f "backoff_next 30000 b"] Suc.prems f by (auto simp flip: shift)
  moreover have "map (\<lambda>i. usleep_us ((backoff_next 30000 ^^ i) b)) [0..<Suc k]
      = usleep_us b # map (\<lambda>i. usleep_us ((backoff_next 30000 ^^ i) (backoff_next 30000 b))) [0..<k]"
    by (simp add: upt_conv_Cons map_Suc_upt [symmetric] funpow_Suc_right del: funpow.simps upt_Suc)
  ultimately show ?case using f db' shift by simp
qed

lemma db_sleep_us: "usleep_us ((backoff_next 30000 ^^ i) 1000) = of_nat (db_sleep i)"
proof -
  have u: "unat ((backoff_next 30000 ^^ i) 1000) = min (1000 * 2 ^ i) 30000"
    using db_backoff.iterate_unat [of 1000 i] by simp
  then have "unat (usleep_us ((backoff_next 30000 ^^ i) 1000)) = db_sleep i"
    by (subst usleep_unat) (simp_all add: db_sleep_def)
  then have "of_nat (unat (usleep_us ((backoff_next 30000 ^^ i) 1000))) = (of_nat (db_sleep i) :: u32)" by (rule arg_cong)
  then show ?thesis by simp
qed

text \<open>
  C28. When the first \<open>k\<close> attempts to connect fail and the next one succeeds,
  \<open>wait_for_connection\<close> returns after \<open>k\<close> sleeps of 1, 2, 4, 8, 16, 30, 30, ... seconds: the
  doubled delay is cut at 30 seconds and no 32-bit product wraps. Any fuel above \<open>k\<close> is enough.
\<close>

theorem db_connect_schedule:
  assumes "\<forall>i < k. \<not> fst (pg_connect pg c (db_after pg c i db))" and "fst (pg_connect pg c (db_after pg c k db))"
    and "k < fuel"
  shows "\<exists>msgs. wait_for_connection pg fuel c db
    = Some (db_after pg c (Suc k) db, map (\<lambda>i. of_nat (1000 * min (1000 * 2 ^ i) 30000)) [0..<k], msgs)"
  using connect_loop_schedule [OF assms, of 1000]
  by (simp add: wait_for_connection_def db_sleep_us db_sleep_def)

text \<open>A database for examples: it counts the attempts to connect and refuses the first ones.\<close>

definition flaky_pg :: "nat \<Rightarrow> nat postgres" where
  "flaky_pg k = \<lparr>pg_connect = (\<lambda>c n. (k \<le> n, Suc n)), pg_exec = (\<lambda>st n. (True, n)), pg_error = (\<lambda>n. ''refused'')\<rparr>"

lemma flaky_after: "db_after (flaky_pg k) c i n = n + i"
  by (induction i) (simp_all add: db_after_def flaky_pg_def)

theorem db_connect_schedule_witness:
  "\<exists>msgs. wait_for_connection (flaky_pg 6) 10 ''host=db'' 0
     = Some (7, [1000000, 2000000, 4000000, 8000000, 16000000, 30000000], msgs)"
  using db_connect_schedule [of 6 "flaky_pg 6" "''host=db''" 0 10] unfolding flaky_after
  by (simp add: flaky_pg_def upt_rec)

section \<open>The loop over the queue\<close>

text \<open>One round with an event: it is handed on, and the loop goes on or waits for the server.\<close>

lemma writer_round:
  assumes "queue_pop (w_queue s) = Some (0, Some e, q)"
    and "writer_loop pg fuel config (True # readings) s = (status, s')"
  shows "(status = Reconnecting \<and> w_queue s' = q \<and> w_sent s' = w_sent s @ [(e, False)]
      \<and> (\<exists>db. wait_for_connection pg fuel (pg_conninfo config) db = None))
    \<or> (\<exists>ok s1. w_queue s1 = q \<and> w_sent s1 = w_sent s @ [(e, ok)]
        \<and> writer_loop pg fuel config readings s1 = (status, s'))"
proof -
  obtain ok db msgs where i: "insert_event pg e config (w_db s) = (ok, db, msgs)"
    by (cases "insert_event pg e config (w_db s)") auto
  show ?thesis
  proof (cases ok)
    case True
    with assms i show ?thesis
      by (intro disjI2 exI [of _ True]
          exI [of _ "s\<lparr>w_queue := q, w_db := db, w_log := w_log s @ msgs, w_sent := w_sent s @ [(e, True)]\<rparr>"]) simp
  next
    case False
    show ?thesis
    proof (cases "wait_for_connection pg fuel (pg_conninfo config) db")
      case None
      with False assms i show ?thesis by (intro disjI1) (auto simp: Let_def)
    next
      case (Some r)
      obtain db' sl ms where r: "r = (db', sl, ms)" by (cases r)
      let ?s1 = "s\<lparr>w_queue := q, w_sent := w_sent s @ [(e, ok)], w_db := db',
            w_log := w_log s @ msgs @ [(YUREI_LOG_WARN, ''Insert failed; reconnecting'')] @ ms\<rparr>"
      have "writer_loop pg fuel config (True # readings) s = writer_loop pg fuel config readings ?s1"
        using False assms(1) i Some r by simp
      with assms(2) show ?thesis by (intro disjI2 exI [of _ ok] exI [of _ ?s1]) simp
    qed
  qed
qed

lemma writer_no_event:
  assumes "queue_inv (w_queue s)" and "\<not> (running \<and> queue_contents (w_queue s) \<noteq> [])"
  shows "writer_loop pg fuel config (running # readings) s
    = (if \<not> running \<or> q_closed (w_queue s) then Finished else WaitingForEvent, s)"
  using ring.pop_waits [OF assms(1)] ring.pop_end [OF assms(1)] assms(2) by auto

lemma pop_front:
  assumes "queue_inv q" and "queue_contents q = e # es"
  shows "\<exists>q'. queue_pop q = Some (0, Some e, q') \<and> queue_contents q' = es \<and> queue_inv q' \<and> q_closed q' = q_closed q"
proof -
  obtain rc r q' where p: "queue_pop q = Some (rc, r, q')"
    using ring.pop_waits [OF assms(1)] assms(2) by (cases "queue_pop q") auto
  from ring.pop_event [OF assms(1) _ p] assms(2) p show ?thesis by auto
qed

text \<open>Whatever happens, the thread only takes events from the front, and hands each on once.\<close>

lemma writer_loop_once:
  assumes "queue_inv (w_queue s)" and "writer_loop pg fuel config readings s = (status, s')"
  shows "queue_inv (w_queue s') \<and> q_closed (w_queue s') = q_closed (w_queue s)
    \<and> map fst (w_sent s) @ queue_contents (w_queue s) = map fst (w_sent s') @ queue_contents (w_queue s')"
  using assms
proof (induction readings arbitrary: s)
  case (Cons running readings)
  show ?case
  proof (cases "running \<and> queue_contents (w_queue s) \<noteq> []")
    case True
    then obtain e es where es: "queue_contents (w_queue s) = e # es" by (cases "queue_contents (w_queue s)") auto
    from pop_front [OF Cons.prems(1) es] obtain q where q: "queue_pop (w_queue s) = Some (0, Some e, q)"
      "queue_contents q = es" "queue_inv q" "q_closed q = q_closed (w_queue s)" by blast
    from Cons.prems(2) True have "writer_loop pg fuel config (True # readings) s = (status, s')" by simp
    from writer_round [OF q(1) this] q es Cons.IH show ?thesis by fastforce
  next
    case False
    with writer_no_event [OF Cons.prems(1) False] Cons.prems show ?thesis by auto
  qed
qed auto

text \<open>With a server that comes back and \<open>running\<close> set, a closed queue is drained.\<close>

lemma writer_loop_drains:
  assumes "queue_inv (w_queue s)" and "q_closed (w_queue s)" and "length (queue_contents (w_queue s)) < n"
    and "\<forall>db. wait_for_connection pg fuel (pg_conninfo config) db \<noteq> None"
  shows "\<exists>s'. writer_loop pg fuel config (replicate n True) s = (Finished, s') \<and> queue_contents (w_queue s') = []"
  using assms(1-3)
proof (induction n arbitrary: s)
  case (Suc n)
  show ?case
  proof (cases "queue_contents (w_queue s)")
    case Nil
    with writer_no_event [of s True] Suc.prems show ?thesis by simp
  next
    case (Cons e es)
    from pop_front [OF Suc.prems(1) Cons] obtain q where q: "queue_pop (w_queue s) = Some (0, Some e, q)"
      "queue_contents q = es" "queue_inv q" "q_closed q = q_closed (w_queue s)" by blast
    obtain status s' where run: "writer_loop pg fuel config (True # replicate n True) s = (status, s')"
      by (cases "writer_loop pg fuel config (True # replicate n True) s")
    from writer_round [OF q(1) run] assms(4) obtain s1 where s1: "w_queue s1 = q"
      "writer_loop pg fuel config (replicate n True) s1 = (status, s')" by blast
    moreover have "length es < n" using Suc.prems(3) Cons by simp
    ultimately show ?thesis using Suc.IH [of s1] q Suc.prems(2) run by auto
  qed
qed simp

text \<open>
  C7. On a closed queue, while \<open>running\<close> stays set and the server can be reached again after
  each failure, the thread ends with the queue empty, and it has handed every event to
  \<open>insert_event\<close> exactly once, in order. An event whose insert was refused is therefore never
  sent again: after the reconnection the thread goes on with the next one.
\<close>

theorem writer_sends_each_once:
  assumes "queue_inv q" and "q_closed q" and "length (queue_contents q) < n"
    and "\<forall>db. wait_for_connection pg fuel (pg_conninfo config) db \<noteq> None"
  shows "\<exists>s'. writer_thread pg fuel config (replicate n True) q db = (Finished, s')
    \<and> queue_contents (w_queue s') = [] \<and> map fst (w_sent s') = queue_contents q"
proof -
  obtain db' sl ms where w: "wait_for_connection pg fuel (pg_conninfo config) db = Some (db', sl, ms)"
    using assms(4) [rule_format, of db] by auto
  let ?s = "\<lparr>w_queue = q, w_db = db', w_log = ms @ [(YUREI_LOG_INFO, ''Connected to PostgreSQL'')], w_sent = []\<rparr>"
  obtain s' where s': "writer_loop pg fuel config (replicate n True) ?s = (Finished, s')" "queue_contents (w_queue s') = []"
    using writer_loop_drains [of ?s n pg fuel config] assms by auto
  from writer_loop_once [OF _ s'(1)] assms(1) s' w show ?thesis by (auto simp: writer_thread_def)
qed

definition closed_sample :: YureiEventQueue where
  "closed_sample = queue_close sample_queue"

lemma closed_sample_facts: "queue_inv closed_sample" "q_closed closed_sample"
    "queue_contents closed_sample = [sample_event 3, sample_event 4]"
  by (simp_all add: closed_sample_def queue_close_def sample_queue_def queue_inv_def queue_contents_def numeral_2_eq_2)

definition sample_db_config :: YureiConfig where
  "sample_db_config = apply_defaults"

lemma refusing_connects: "wait_for_connection refusing_pg (Suc n) c db = Some ((), [], [])"
  by (simp add: wait_for_connection_def refusing_pg_def)

theorem writer_sends_each_once_witness:
  "\<exists>s'. writer_thread refusing_pg (Suc 0) sample_db_config (replicate 3 True) closed_sample () = (Finished, s')
    \<and> queue_contents (w_queue s') = [] \<and> map fst (w_sent s') = [sample_event 3, sample_event 4]"
  using writer_sends_each_once [OF closed_sample_facts(1,2), of 3 refusing_pg "Suc 0" sample_db_config "()"]
  by (simp add: closed_sample_facts refusing_connects)

lemma queue_close_size [simp]: "q_size (queue_close q) = q_size q"
  by (simp add: queue_close_def)




section \<open>What the tables hold\<close>

text \<open>
  The tables are declared as in \<open>schema.sql\<close>, with the signature as primary key, and no other
  session writes to them; their names in the configuration are of letters, digits, underscores
  and dots, since anything else in a name is SQL of its own. \<open>rows db t k\<close> is the row of table \<open>t\<close> stored under the signature \<open>k\<close>;
  \<open>relation\<close> is how the server resolves the unquoted name in a query to a table, by folding its
  case for one thing. What PostgreSQL documents of \<open>INSERT ... ON CONFLICT DO NOTHING\<close>: a
  statement that is reported as done has added the row if its key was free and has changed
  nothing otherwise. The server may refuse any statement, for a slot beyond \<open>BIGINT\<close> or a
  table that does not exist; then the tables are as before, except that a statement whose
  result got lost with the connection may have been done. Connecting changes no table.
\<close>

definition plain_name :: "string \<Rightarrow> bool" where
  "plain_name t = list_all (\<lambda>c. c \<in> set ''abcdefghijklmnopqrstuvwxyzABCDEFGHIJKLMNOPQRSTUVWXYZ0123456789_.'') t"

definition plain_tables :: "YureiConfig \<Rightarrow> bool" where
  "plain_tables config = (plain_name (pumpfun_table config) \<and> plain_name (raydium_table config))"

definition insert_row ::
  "string \<Rightarrow> pg_statement \<Rightarrow> (string \<Rightarrow> string \<Rightarrow> (string \<times> u8 list) option)
    \<Rightarrow> (string \<Rightarrow> string \<Rightarrow> (string \<times> u8 list) option)" where
  "insert_row t st tables =
     (if tables t (st_signature st) = None
      then tables(t := (tables t)(st_signature st \<mapsto> (st_slot st, st_raw st)))
      else tables)"

definition inserts_by_key ::
  "'db postgres \<Rightarrow> (string \<Rightarrow> string) \<Rightarrow> ('db \<Rightarrow> string \<Rightarrow> string \<Rightarrow> (string \<times> u8 list) option) \<Rightarrow> bool" where
  "inserts_by_key pg relation rows =
     ((\<forall>table st db. length table < 64 \<and> plain_name table \<longrightarrow> st_query st = insert_query table \<longrightarrow>
         (fst (pg_exec pg st db) \<longrightarrow> rows (snd (pg_exec pg st db)) = insert_row (relation table) st (rows db))
         \<and> (rows (snd (pg_exec pg st db)) = rows db
            \<or> rows (snd (pg_exec pg st db)) = insert_row (relation table) st (rows db)))
      \<and> (\<forall>conninfo db. rows (snd (pg_connect pg conninfo db)) = rows db))"

definition event_row :: "YureiEvent \<Rightarrow> string \<times> u8 list" where
  "event_row e = (show_nat (unat (ev_slot e)), event_bytes e)"

text \<open>The events that are to be stored in table \<open>t\<close> under the signature \<open>k\<close>.\<close>

definition stored_under :: "YureiConfig \<Rightarrow> (string \<Rightarrow> string) \<Rightarrow> string \<Rightarrow> string \<Rightarrow> YureiEvent \<Rightarrow> bool" where
  "stored_under config relation t k e =
     (case table_for_event (ev_kind e) config of None \<Rightarrow> False | Some u \<Rightarrow> relation u = t \<and> ev_signature e = k)"

text \<open>
  The rows that statements for one free key can leave, given the row of each and whether it was
  reported as done: the first one that was, or one before it whose failure was not real; if
  all failed, perhaps none.
\<close>

fun possible_rows :: "('r \<times> bool) list \<Rightarrow> 'r option set" where
  "possible_rows [] = {None}"
| "possible_rows ((r, ok) # rs) = insert (Some r) (if ok then {} else possible_rows rs)"

definition row_outcomes :: "'r option \<Rightarrow> ('r \<times> bool) list \<Rightarrow> 'r option set" where
  "row_outcomes old rs = (case old of Some r \<Rightarrow> {Some r} | None \<Rightarrow> possible_rows rs)"

lemma insert_event_rows:
  assumes "inserts_by_key pg relation rows" and "config_wf config" and "plain_tables config" and "insert_event pg e config db = (ok, db', msgs)"
  shows "row_outcomes (rows db' t k) rs
    \<subseteq> row_outcomes (rows db t k) (if stored_under config relation t k e then (event_row e, ok) # rs else rs)"
proof (cases "table_for_event (ev_kind e) config")
  case None
  with assms(4) show ?thesis by (simp add: insert_event_def stored_under_def)
next
  case (Some u)
  let ?st = "event_statement u e"
  have x: "pg_exec pg ?st db = (ok, db')"
    using assms(4) Some by (auto simp: insert_event_def split: prod.splits if_splits)
  have "length u < 64 \<and> plain_name u"
    using table_length [OF assms(2) Some] assms(3) Some by (auto simp: plain_tables_def table_for_event_def split: YureiEventKind.splits if_splits)
  moreover have "st_query ?st = insert_query u" by (simp add: event_statement_def)
  ultimately have "(ok \<longrightarrow> rows db' = insert_row (relation u) ?st (rows db))
      \<and> (rows db' = rows db \<or> rows db' = insert_row (relation u) ?st (rows db))"
    using assms(1) x unfolding inserts_by_key_def by (metis fst_conv snd_conv)
  moreover have "insert_row (relation u) ?st (rows db) t k
      = (if stored_under config relation t k e \<and> rows db t k = None then Some (event_row e) else rows db t k)"
    using Some by (auto simp: insert_row_def stored_under_def event_statement_def event_row_def slot_text)
  ultimately show ?thesis by (cases ok) (auto simp: row_outcomes_def split: option.splits if_splits)
qed

lemma connect_loop_rows:
  assumes "inserts_by_key pg relation rows" and "connect_loop pg c fuel b db = Some (db', sleeps, msgs)"
  shows "rows db' = rows db"
  using assms(2)
proof (induction fuel arbitrary: b db sleeps msgs)
  case (Suc fuel)
  obtain ok db1 where p: "pg_connect pg c db = (ok, db1)" by (cases "pg_connect pg c db")
  have "rows db1 = rows db" using assms(1) p unfolding inserts_by_key_def by (metis snd_conv)
  with Suc p show ?case by (fastforce split: if_splits)
qed simp

lemma wait_rows:
  assumes "inserts_by_key pg relation rows" and "wait_for_connection pg fuel c db = Some (db', sleeps, msgs)"
  shows "rows db' = rows db"
  using connect_loop_rows [OF assms(1)] assms(2) unfolding wait_for_connection_def by blast

text \<open>One round, with the result of the statement and the tables it leaves.\<close>

lemma writer_round_rows:
  assumes "inserts_by_key pg relation rows" and "queue_pop (w_queue s) = Some (0, Some e, q)"
    and "\<forall>db. wait_for_connection pg fuel (pg_conninfo config) db \<noteq> None"
    and "insert_event pg e config (w_db s) = (ok, db, msgs)"
  shows "\<exists>s1. writer_loop pg fuel config (True # readings) s = writer_loop pg fuel config readings s1
    \<and> w_queue s1 = q \<and> w_sent s1 = w_sent s @ [(e, ok)] \<and> rows (w_db s1) = rows db"
proof (cases ok)
  case True
  with assms(2,4) show ?thesis
    by (intro exI [of _ "s\<lparr>w_queue := q, w_db := db, w_log := w_log s @ msgs, w_sent := w_sent s @ [(e, True)]\<rparr>"]) simp
next
  case False
  obtain db' sl ms where w: "wait_for_connection pg fuel (pg_conninfo config) db = Some (db', sl, ms)"
    using assms(3) [rule_format, of db] by auto
  with False assms(2,4) wait_rows [OF assms(1) w] show ?thesis
    by (intro exI [of _ "s\<lparr>w_queue := q, w_sent := w_sent s @ [(e, ok)], w_db := db',
          w_log := w_log s @ msgs @ [(YUREI_LOG_WARN, ''Insert failed; reconnecting'')] @ ms\<rparr>"]) simp
qed

definition sent_rows ::
  "YureiConfig \<Rightarrow> (string \<Rightarrow> string) \<Rightarrow> string \<Rightarrow> string \<Rightarrow> (YureiEvent \<times> bool) list \<Rightarrow> ((string \<times> u8 list) \<times> bool) list" where
  "sent_rows config relation t k sent =
     map (\<lambda>(e, ok). (event_row e, ok)) (filter (\<lambda>(e, ok). stored_under config relation t k e) sent)"

lemma sent_rows_Cons:
  "sent_rows config relation t k ((e, ok) # sent)
    = (if stored_under config relation t k e then (event_row e, ok) # sent_rows config relation t k sent
       else sent_rows config relation t k sent)"
  by (simp add: sent_rows_def)

lemma writer_loop_rows:
  assumes "inserts_by_key pg relation rows" and "config_wf config" and "plain_tables config"
    and "\<forall>db. wait_for_connection pg fuel (pg_conninfo config) db \<noteq> None"
    and "queue_inv (w_queue s)" and "q_closed (w_queue s)" and "length (queue_contents (w_queue s)) < n"
  shows "\<exists>s' sent. writer_loop pg fuel config (replicate n True) s = (Finished, s') \<and> w_sent s' = w_sent s @ sent
    \<and> map fst sent = queue_contents (w_queue s)
    \<and> rows (w_db s') t k \<in> row_outcomes (rows (w_db s) t k) (sent_rows config relation t k sent)"
  using assms(5-7)
proof (induction n arbitrary: s)
  case (Suc n)
  show ?case
  proof (cases "queue_contents (w_queue s)")
    case Nil
    then have "writer_loop pg fuel config (replicate (Suc n) True) s = (Finished, s)"
      using writer_no_event [of s True] Suc.prems by simp
    with Nil show ?thesis
      by (intro exI [of _ s] exI [of _ "[]"]) (simp add: row_outcomes_def sent_rows_def split: option.split)
  next
    case (Cons e es)
    from pop_front [OF Suc.prems(1) Cons] obtain q where q: "queue_pop (w_queue s) = Some (0, Some e, q)"
      "queue_contents q = es" "queue_inv q" "q_closed q = q_closed (w_queue s)" by blast
    obtain ok db msgs where i: "insert_event pg e config (w_db s) = (ok, db, msgs)"
      by (cases "insert_event pg e config (w_db s)") auto
    obtain s1 where s1: "writer_loop pg fuel config (True # replicate n True) s = writer_loop pg fuel config (replicate n True) s1"
      "w_queue s1 = q" "w_sent s1 = w_sent s @ [(e, ok)]" "rows (w_db s1) = rows db"
      using writer_round_rows [OF assms(1) q(1) assms(4) i] by blast
    have "length es < n" using Suc.prems(3) Cons by simp
    then obtain s' sent where s': "writer_loop pg fuel config (replicate n True) s1 = (Finished, s')"
      "w_sent s' = w_sent s1 @ sent" "map fst sent = es"
      "rows (w_db s') t k \<in> row_outcomes (rows db t k) (sent_rows config relation t k sent)"
      using Suc.IH [of s1] s1 q Suc.prems(2) by auto
    have "rows (w_db s') t k \<in> row_outcomes (rows (w_db s) t k) (sent_rows config relation t k ((e, ok) # sent))"
      using subsetD [OF insert_event_rows [OF assms(1-3) i] s'(4)] by (simp only: sent_rows_Cons)
    with s' s1 Cons show ?thesis by (intro exI [of _ s'] exI [of _ "(e, ok) # sent"]) simp
  qed
qed simp

lemma writer_thread_rows:
  assumes "inserts_by_key pg relation rows" and "config_wf config" and "plain_tables config" and "queue_inv q"
    and "q_closed q" and "length (queue_contents q) < n" and "\<forall>db. wait_for_connection pg fuel (pg_conninfo config) db \<noteq> None"
  shows "\<exists>s'. writer_thread pg fuel config (replicate n True) q db = (Finished, s')
    \<and> map fst (w_sent s') = queue_contents q
    \<and> rows (w_db s') t k \<in> row_outcomes (rows db t k) (sent_rows config relation t k (w_sent s'))"
proof -
  obtain db' sl ms where w: "wait_for_connection pg fuel (pg_conninfo config) db = Some (db', sl, ms)"
    using assms(7) [rule_format, of db] by auto
  let ?s = "\<lparr>w_queue = q, w_db = db', w_log = ms @ [(YUREI_LOG_INFO, ''Connected to PostgreSQL'')], w_sent = []\<rparr>"
  from writer_loop_rows [OF assms(1-3,7), of ?s n t k] assms(4-6) wait_rows [OF assms(1) w] w
  show ?thesis by (auto simp: writer_thread_def)
qed

text \<open>
  C14. What the events of a closed queue leave in a table, if the server can be reached again after
  each failure and keeps the law of \<open>INSERT ... ON CONFLICT DO NOTHING\<close>: each event is sent
  once; a row that was there stays; under a free signature there is the row of the first
  event of that table and signature whose statement was reported as done, or of an earlier
  one whose failure was only apparent, or, if all were refused, perhaps none. The payloads of
  the later events of the same transaction are lost without a message, since the signature
  alone is the key.
\<close>

theorem first_event_of_signature_stored:
  assumes "inserts_by_key pg relation rows" and "config_wf config" and "plain_tables config" and "queue_inv q"
    and "q_closed q" and "length (queue_contents q) < n" and "\<forall>db. wait_for_connection pg fuel (pg_conninfo config) db \<noteq> None"
  shows "\<exists>s'. writer_thread pg fuel config (replicate n True) q db = (Finished, s')
    \<and> map fst (w_sent s') = queue_contents q
    \<and> (\<forall>r. rows db t k = Some r \<longrightarrow> rows (w_db s') t k = Some r)
    \<and> (rows db t k = None \<longrightarrow> rows (w_db s') t k \<in> possible_rows
         (map (\<lambda>(e, ok). ((show_nat (unat (ev_slot e)), event_bytes e), ok))
           (filter (\<lambda>(e, ok). case table_for_event (ev_kind e) config of None \<Rightarrow> False
                                | Some u \<Rightarrow> relation u = t \<and> ev_signature e = k) (w_sent s'))))"
  using writer_thread_rows [OF assms, of db t k]
  by (auto simp: row_outcomes_def sent_rows_def stored_under_def [abs_def] event_row_def [abs_def] split: option.splits)

text \<open>
  A server for examples that keeps the rows of a table in a list of keys and rows and refuses
  slots outside \<open>BIGINT\<close>.
\<close>

definition map_pg :: "((string \<times> string) \<times> string \<times> u8 list) list postgres" where
  "map_pg = \<lparr>pg_connect = (\<lambda>c db. (True, db)),
     pg_exec = (\<lambda>st db.
       if 2 ^ 63 \<le> unat (fst (strtoul (st_slot st))) then (False, db)
       else (True, if map_of db (st_query st, st_signature st) = None
         then db @ [((st_query st, st_signature st), st_slot st, st_raw st)] else db)),
     pg_error = (\<lambda>db. ''value out of range'')\<rparr>"

definition map_rows ::
  "((string \<times> string) \<times> string \<times> u8 list) list \<Rightarrow> string \<Rightarrow> string \<Rightarrow> (string \<times> u8 list) option" where
  "map_rows db table signature = map_of db (insert_query table, signature)"

definition slot_event :: "u64 \<Rightarrow> u8 \<Rightarrow> YureiEvent" where
  "slot_event slot b = zero_event\<lparr>ev_kind := YUREI_EVENT_KIND_RAYDIUM, ev_signature := ''5sig'', ev_slot := slot,
     ev_data := [b], ev_data_len := 1\<rparr>"

text \<open>Three payloads of one transaction; the slot of the first is outside \<open>BIGINT\<close>.\<close>

definition three_queue :: YureiEventQueue where
  "three_queue = \<lparr>q_buffer = [slot_event (2 ^ 63) 1, slot_event 9 2, slot_event 9 3], q_capacity = 3, q_head = 0,
     q_tail = 0, q_size = 3, q_closed = True\<rparr>"

text \<open>The query determines the table, also against names that the configuration cannot hold.\<close>

lemma insert_query_inj:
  assumes "length t < 64" and "insert_query t = insert_query u"
  shows "t = u"
proof -
  have "length (insert_query t) = length (insert_query u)" using assms(2) by simp
  then have "length u < 64" using assms(1) by (simp add: insert_query_def snprintf_str_def min_def split: if_splits)
  with assms show ?thesis by (simp add: insert_query_exact)
qed

lemma map_rows_insert:
  assumes "length table < 64" and "st_query st = insert_query table"
  shows "map_rows (if map_of db (st_query st, st_signature st) = None
      then db @ [((st_query st, st_signature st), st_slot st, st_raw st)] else db) = insert_row table st (map_rows db)"
proof (intro ext)
  fix u k
  have u: "insert_query table = insert_query u \<longleftrightarrow> table = u" using insert_query_inj [OF assms(1)] by blast
  show "map_rows (if map_of db (st_query st, st_signature st) = None
      then db @ [((st_query st, st_signature st), st_slot st, st_raw st)] else db) u k = insert_row table st (map_rows db) u k"
    using u assms(2) by (auto simp: map_rows_def insert_row_def map_add_def split: option.splits)
qed

lemma map_pg_inserts: "inserts_by_key map_pg (\<lambda>t. t) map_rows"
  unfolding inserts_by_key_def
proof (intro conjI allI impI)
  fix table and st :: pg_statement and db
  assume "length table < 64 \<and> plain_name table" and "st_query st = insert_query table"
  then have a: "length table < 64" "st_query st = insert_query table" by simp_all
  show "map_rows (snd (pg_exec map_pg st db)) = insert_row table st (map_rows db)" if "fst (pg_exec map_pg st db)"
    using that map_rows_insert [OF a, of db] unfolding map_pg_def by (cases "2 ^ 63 \<le> unat (fst (strtoul (st_slot st)))") simp_all
  show "map_rows (snd (pg_exec map_pg st db)) = map_rows db
      \<or> map_rows (snd (pg_exec map_pg st db)) = insert_row table st (map_rows db)"
    using map_rows_insert [OF a, of db] unfolding map_pg_def by (cases "2 ^ 63 \<le> unat (fst (strtoul (st_slot st)))") simp_all
qed (simp add: map_pg_def)

lemma map_pg_reached: "wait_for_connection map_pg (Suc fuel) c db = Some (db, [], [])"
  by (simp add: wait_for_connection_def map_pg_def)

lemma plain_names: "plain_name ''pumpfun_trades''" "plain_name ''raydium_swaps''" "plain_name []"
  by (simp_all add: plain_name_def)

lemma sample_db_config_facts: "config_wf sample_db_config" "plain_tables sample_db_config"
    "table_for_event YUREI_EVENT_KIND_RAYDIUM sample_db_config = Some ''raydium_swaps''"
  by (simp_all add: sample_db_config_def apply_defaults_def config_wf_def fits_def copy_string_def snprintf_str_def
      table_for_event_def plain_tables_def plain_names)

lemma three_facts: "queue_inv three_queue" "q_closed three_queue"
    "queue_contents three_queue = [slot_event (2 ^ 63) 1, slot_event 9 2, slot_event 9 3]"
proof -
  show "queue_inv three_queue" by (simp add: three_queue_def queue_inv_def)
  show "q_closed three_queue" by (simp add: three_queue_def)
  have "queue_contents \<lparr>q_buffer = [a, b, c], q_capacity = 3, q_head = 0, q_tail = 0, q_size = 3, q_closed = True\<rparr>
      = [a, b, c]" for a b c
    by (simp add: queue_contents_def upt_rec)
  then show "queue_contents three_queue = [slot_event (2 ^ 63) 1, slot_event 9 2, slot_event 9 3]"
    unfolding three_queue_def .
qed

lemma map_pg_insert:
  "fst (insert_event map_pg e config db)
     = (table_for_event (ev_kind e) config = None \<or> unat (ev_slot e) < 2 ^ 63)"
  by (cases "table_for_event (ev_kind e) config")
     (simp_all add: insert_event_def map_pg_def event_statement_def slot_text strtoul_show_nat not_le)

definition map_pg_sent :: "YureiConfig \<Rightarrow> YureiEvent \<times> bool \<Rightarrow> bool" where
  "map_pg_sent config = (\<lambda>(e, ok). ok = (table_for_event (ev_kind e) config = None \<or> unat (ev_slot e) < 2 ^ 63))"

lemma map_pg_loop_sent:
  assumes "queue_inv (w_queue s)" and "q_closed (w_queue s)" and "length (queue_contents (w_queue s)) < n"
    and "list_all (map_pg_sent config) (w_sent s)"
  shows "list_all (map_pg_sent config) (w_sent (snd (writer_loop map_pg (Suc fuel) config (replicate n True) s)))"
  using assms
proof (induction n arbitrary: s)
  case (Suc n)
  show ?case
  proof (cases "queue_contents (w_queue s)")
    case Nil
    with writer_no_event [of s True] Suc.prems show ?thesis by simp
  next
    case (Cons e es)
    from pop_front [OF Suc.prems(1) Cons] obtain q where q: "queue_pop (w_queue s) = Some (0, Some e, q)"
      "queue_contents q = es" "queue_inv q" "q_closed q = q_closed (w_queue s)" by blast
    obtain ok db msgs where i: "insert_event map_pg e config (w_db s) = (ok, db, msgs)"
      by (cases "insert_event map_pg e config (w_db s)") auto
    have e: "map_pg_sent config (e, ok)" using map_pg_insert [of e config "w_db s"] i by (simp add: map_pg_sent_def)
    obtain s1 where s1: "writer_loop map_pg (Suc fuel) config (True # replicate n True) s
        = writer_loop map_pg (Suc fuel) config (replicate n True) s1" "w_queue s1 = q" "w_sent s1 = w_sent s @ [(e, ok)]"
      using writer_round_rows [OF map_pg_inserts q(1) _ i, of "Suc fuel"] map_pg_reached by fastforce
    have "length es < n" using Suc.prems(3) Cons by simp
    then have "list_all (map_pg_sent config) (w_sent (snd (writer_loop map_pg (Suc fuel) config (replicate n True) s1)))"
      using Suc.IH [of s1] s1 q e Suc.prems(2,4) by auto
    with s1(1) show ?thesis by simp
  qed
qed simp

lemma map_pg_thread_sent:
  assumes "queue_inv q" and "q_closed q" and "length (queue_contents q) < n"
    and "writer_thread map_pg (Suc fuel) config (replicate n True) q db = (status, s')"
  shows "list_all (map_pg_sent config) (w_sent s')"
  using map_pg_loop_sent [of "\<lparr>w_queue = q, w_db = db, w_log = [(YUREI_LOG_INFO, ''Connected to PostgreSQL'')],
      w_sent = []\<rparr>" n config fuel] assms
  by (simp add: writer_thread_def map_pg_reached)

text \<open>The first statement is refused, the second stores its payload, the third is lost.\<close>

theorem first_event_of_signature_stored_witness:
  "\<exists>s'. writer_thread map_pg 1 sample_db_config (replicate 4 True) three_queue [] = (Finished, s')
    \<and> map fst (w_sent s') = [slot_event (2 ^ 63) 1, slot_event 9 2, slot_event 9 3]
    \<and> map_rows (w_db s') ''raydium_swaps'' ''5sig'' \<in> {Some (show_nat (2 ^ 63), [1]), Some (show_nat 9, [2])}"
proof -
  have r: "\<forall>db. wait_for_connection map_pg 1 (pg_conninfo sample_db_config) db \<noteq> None"
    using map_pg_reached [of 0] by simp
  have n: "map_rows [] ''raydium_swaps'' ''5sig'' = None" by (simp add: map_rows_def)
  have l: "length (queue_contents three_queue) < 4" unfolding three_facts by simp
  obtain s' where s': "writer_thread map_pg 1 sample_db_config (replicate 4 True) three_queue [] = (Finished, s')"
    "map fst (w_sent s') = queue_contents three_queue"
    "map_rows (w_db s') ''raydium_swaps'' ''5sig'' \<in> possible_rows
       (map (\<lambda>(e, ok). ((show_nat (unat (ev_slot e)), event_bytes e), ok))
         (filter (\<lambda>(e, ok). case table_for_event (ev_kind e) sample_db_config of None \<Rightarrow> False
                              | Some u \<Rightarrow> u = ''raydium_swaps'' \<and> ev_signature e = ''5sig'') (w_sent s')))"
    using first_event_of_signature_stored [OF map_pg_inserts sample_db_config_facts(1,2) three_facts(1,2) l r, of "[]"
        "''raydium_swaps''" "''5sig''"] n by auto
  have "list_all (map_pg_sent sample_db_config) (w_sent s')"
    using map_pg_thread_sent [OF three_facts(1,2) l, of 0] s'(1) by simp
  moreover have "w_sent s' = zip (map fst (w_sent s')) (map snd (w_sent s'))" by (simp add: zip_map_fst_snd)
  moreover obtain a b c where "map snd (w_sent s') = [a, b, c]"
    using arg_cong [OF s'(2), of length] three_facts(3) by (auto simp: length_Suc_conv numeral_3_eq_3)
  ultimately have "w_sent s' = [(slot_event (2 ^ 63) 1, False), (slot_event 9 2, True), (slot_event 9 3, True)]"
    using s'(2) by (simp add: three_facts(3) map_pg_sent_def slot_event_def sample_db_config_facts)
  with s' show ?thesis
    by (simp add: three_facts(3) slot_event_def sample_db_config_facts event_bytes_def)
qed

end
