(* ===== verification/Client_Main.thy ===== *)
theory Client_Main
  imports Http_Poller Websocket_Client Db_Writer
begin

text \<open>
  \<open>src/main.c\<close>: the command line, the order in which the components are started, with the
  exit of each failure, the choice of the network threads and the loop that logs the metrics.
  What the threads do at the end is theory \<open>Shutdown\<close>.
\<close>

section \<open>The command line\<close>

datatype arg_result =
    RunWith string
  | ShowUsage int
  | ShowVersion

text \<open>\<open>args\<close> is \<open>argv[1 ..]\<close>; the number in \<open>ShowUsage\<close> is the exit code.\<close>

fun parse_args :: "string \<Rightarrow> string list \<Rightarrow> arg_result" where
  "parse_args env_path [] = RunWith env_path"
| "parse_args env_path [a] =
     (if a = ''-h'' \<or> a = ''--help'' then ShowUsage 0
      else if a = ''-v'' \<or> a = ''--version'' then ShowVersion
      else ShowUsage 1)"
| "parse_args env_path (a # b # args) =
     (if a = ''-c'' \<or> a = ''--config'' then parse_args b args
      else if a = ''-h'' \<or> a = ''--help'' then ShowUsage 0
      else if a = ''-v'' \<or> a = ''--version'' then ShowVersion
      else ShowUsage 1)"

definition main_args :: "string list \<Rightarrow> arg_result" where
  "main_args args = parse_args ''.env'' args"

definition YUREI_VERSION :: string where
  "YUREI_VERSION = ''1.1.0''"

definition version_text :: string where
  "version_text = ''yurei-jsonrpc-client v'' @ YUREI_VERSION @ [CHR 0x0A]"

definition usage_text :: "string \<Rightarrow> string" where
  "usage_text prog = ''Usage: '' @ prog @ '' [-c path/to/.env]'' @ [CHR 0x0A]"

section \<open>Starting\<close>

text \<open>
  The banner, with the UTF-8 bytes of its frame: all the characters of the frame are
  \<open>E2 95 xx\<close>.
\<close>

definition box :: "char \<Rightarrow> string" where
  "box c = [CHR 0xE2, CHR 0x95, c]"

definition banner_edge :: "char \<Rightarrow> char \<Rightarrow> string" where
  "banner_edge l r = box l @ concat (replicate 60 (box CHR 0x90)) @ box r"

definition banner_row :: "string \<Rightarrow> string" where
  "banner_row t = box CHR 0x91 @ t @ box CHR 0x91"

definition print_startup_banner :: "YureiConfig \<Rightarrow> log_event list" where
  "print_startup_banner config =
     [(YUREI_LOG_INFO, banner_edge CHR 0x94 CHR 0x97),
      (YUREI_LOG_INFO, banner_row (''             PROJECT YUREI JSON-RPC CLIENT v'' @ YUREI_VERSION @ ''            '')),
      (YUREI_LOG_INFO, banner_row ''        High-performance Solana data ingestion engine       ''),
      (YUREI_LOG_INFO, banner_edge CHR 0x9A CHR 0x9D),
      (YUREI_LOG_INFO, ''RPC endpoint: '' @ rpc_endpoint config),
      (YUREI_LOG_INFO, ''WSS endpoint: '' @ wss_endpoint config),
      (YUREI_LOG_INFO, ''Mode: '' @ rpc_mode config @ '' | Batch size: '' @ show_nat (unat (batch_size config)) @
         '' | Rate limit: '' @ show_nat (unat (rate_limit_rps config)) @ '' rps''),
      (YUREI_LOG_INFO, ''Queue capacity: '' @ show_nat (unat (queue_capacity config)) @ '' | Log color: '' @
         (if log_color config then ''enabled'' else ''disabled''))]"

text \<open>Which of the calls to the operating system and the libraries succeed.\<close>

record start_env =
  se_now :: timespec
  se_mutex_ok :: bool
  se_calloc_ok :: bool
  se_writer_thread_ok :: bool
  se_ws_thread_ok :: bool
  se_curl_ok :: bool
  se_http_thread_ok :: bool

record yurei_system =
  sys_config :: YureiConfig
  sys_metrics :: YureiMetrics
  sys_rate_limiter :: YureiRateLimiter
  sys_queue :: YureiEventQueue
  sys_writer :: YureiDbWriter
  sys_ws :: "YureiEventQueue YureiWebsocketClient option"
  sys_http :: "YureiEventQueue YureiHttpPoller option"
  sys_use_ws :: bool
  sys_use_http :: bool

definition mode_uses_ws :: "string \<Rightarrow> bool" where
  "mode_uses_ws mode = (\<not> strcaseeq mode ''http'')"

definition mode_uses_http :: "string \<Rightarrow> bool" where
  "mode_uses_http mode = (strcaseeq mode ''http'' \<or> strcaseeq mode ''dual'')"

text \<open>
  From the loaded configuration to the running system: \<open>Inl\<close> the exit code, with the errors
  logged, or \<open>Inr\<close> the system. The queue of a network component is the shared one at the time
  of its start.
\<close>

definition start_network ::
  "start_env \<Rightarrow> YureiConfig \<Rightarrow> YureiMetrics \<Rightarrow> YureiRateLimiter \<Rightarrow> YureiEventQueue \<Rightarrow> YureiDbWriter
    \<Rightarrow> yurei_system \<times> log_event list" where
  "start_network env config metrics rl queue writer =
     (let use_ws = mode_uses_ws (rpc_mode config);
          use_http = mode_uses_http (rpc_mode config);
          (ws, use_ws, use_http, msgs) =
            (if use_ws then
               case yurei_ws_client_start (se_ws_thread_ok env) config queue None of
                 (rc, client) \<Rightarrow>
                   if rc \<noteq> 0 then (None, False, True,
                     [(YUREI_LOG_WARN, ''Failed to start WebSocket client; falling back to HTTP'')])
                   else (client, use_ws, use_http, [])
             else (None, use_ws, use_http, []));
          (http, msgs) =
            (if use_http then
               case yurei_http_poller_start (se_curl_ok env) (se_http_thread_ok env) config queue (Some metrics) (Some rl) of
                 (rc, poller, errs) \<Rightarrow>
                   (poller, msgs @ errs @ (if rc \<noteq> 0 then [(YUREI_LOG_ERROR, ''Failed to start HTTP poller'')] else []))
             else (None, msgs))
      in (\<lparr>sys_config = config, sys_metrics = metrics, sys_rate_limiter = rl, sys_queue = queue, sys_writer = writer,
            sys_ws = ws, sys_http = http, sys_use_ws = use_ws, sys_use_http = use_http\<rparr>,
          msgs @ [(YUREI_LOG_INFO, ''Yurei JSON-RPC client started successfully (mode='' @ rpc_mode config @ '')'')]))"

definition start_system ::
  "(rat \<Rightarrow> rat) \<Rightarrow> start_env \<Rightarrow> YureiConfig \<Rightarrow> (int + yurei_system) \<times> log_event list" where
  "start_system fl env config =
     (let banner = print_startup_banner config;
          metrics = metrics_zero\<lparr>latency_min_us := UINT64_MAX\<rparr>;
          msgs = banner @ [(YUREI_LOG_DEBUG, ''Metrics system initialized'')]
      in case yurei_rate_limiter_init fl (se_now env) (se_mutex_ok env) (rate_limit_rps config) of
           None \<Rightarrow> (Inl 1, msgs @ [(YUREI_LOG_ERROR, ''Failed to initialize rate limiter'')])
         | Some rl \<Rightarrow>
             let msgs = msgs @ [(YUREI_LOG_DEBUG, ''Rate limiter initialized: '' @ show_nat (unat (rate_limit_rps config)) @ '' rps'')]
             in (case yurei_queue_init (se_calloc_ok env) (unat (queue_capacity config)) of
                   None \<Rightarrow> (Inl 1, msgs @ [(YUREI_LOG_ERROR, ''Unable to initialize event queue'')])
                 | Some queue \<Rightarrow>
                     (case yurei_db_writer_start (se_writer_thread_ok env) config queue of
                        (rc, writer) \<Rightarrow>
                          if rc \<noteq> 0 then (Inl 1, msgs @ [(YUREI_LOG_ERROR, ''Unable to start DB writer thread'')])
                          else
                            (case start_network env config metrics rl queue writer of
                               (sys, later) \<Rightarrow> (Inr sys, msgs @ later)))))"

section \<open>The loop of the main thread\<close>

definition METRICS_LOG_INTERVAL_SEC :: int where
  "METRICS_LOG_INTERVAL_SEC = 60"

text \<open>
  One entry per round: the value of \<open>g_should_exit\<close> it reads and the time after the sleep. The
  result is the list of times at which the metrics were logged.
\<close>

fun main_loop :: "(bool \<times> int) list \<Rightarrow> int \<Rightarrow> int list" where
  "main_loop [] last_metrics_log = []"
| "main_loop ((should_exit, now) # rounds) last_metrics_log =
     (if should_exit then []
      else if METRICS_LOG_INTERVAL_SEC \<le> now - last_metrics_log then now # main_loop rounds now
      else main_loop rounds last_metrics_log)"

section \<open>What a started system is\<close>

lemma start_network_modes:
  assumes "start_network env config metrics rl queue writer = (sys, msgs)"
  shows "sys_use_ws sys = (mode_uses_ws (rpc_mode config) \<and> se_ws_thread_ok env)
    \<and> sys_use_http sys = (mode_uses_http (rpc_mode config) \<or> mode_uses_ws (rpc_mode config) \<and> \<not> se_ws_thread_ok env)
    \<and> (sys_use_ws sys \<longrightarrow> (\<exists>c. sys_ws sys = Some c \<and> wc_running c \<and> wc_queue c = queue \<and> wc_config c = config))
    \<and> (sys_use_http sys \<and> se_curl_ok env \<and> se_http_thread_ok env \<longrightarrow>
        (\<exists>p. sys_http sys = Some p \<and> hp_running p \<and> hp_queue p = queue \<and> hp_config p = config
          \<and> hp_metrics p = Some metrics \<and> hp_rate_limiter p = Some rl))
    \<and> sys_queue sys = queue \<and> sys_writer sys = writer \<and> sys_metrics sys = metrics \<and> sys_rate_limiter sys = rl"
  using assms
  by (auto simp: start_network_def yurei_ws_client_start_def yurei_http_poller_start_def Let_def split: if_splits)

text \<open>
  C21. Start-up: it fails with exit code 1 exactly when the mutex, the buffer or the writer thread
  cannot be made or the queue capacity is 0; otherwise the system has an empty open queue
  of the configured capacity, fresh metrics, a full token bucket and a running writer, it
  uses the WebSocket client unless the mode is \<open>http\<close>, the poller in the modes \<open>http\<close> and
  \<open>dual\<close>, and the poller also when the WebSocket thread cannot be created, so never neither.
\<close>

theorem start_system_spec:
  "case start_system dround env config of
     (Inl code, msgs) \<Rightarrow> code = 1
       \<and> (\<not> se_mutex_ok env \<or> queue_capacity config = 0 \<or> \<not> se_calloc_ok env \<or> \<not> se_writer_thread_ok env)
   | (Inr sys, msgs) \<Rightarrow>
       se_mutex_ok env \<and> queue_capacity config \<noteq> 0 \<and> se_calloc_ok env \<and> se_writer_thread_ok env
     \<and> queue_inv (sys_queue sys) \<and> queue_contents (sys_queue sys) = [] \<and> \<not> q_closed (sys_queue sys)
     \<and> q_capacity (sys_queue sys) = unat (queue_capacity config)
     \<and> w_running (sys_writer sys) \<and> sys_metrics sys = metrics_after metrics_zero []
     \<and> tokens (sys_rate_limiter sys) = max_tokens (sys_rate_limiter sys)
     \<and> sys_use_ws sys = (\<not> strcaseeq (rpc_mode config) ''http'' \<and> se_ws_thread_ok env)
     \<and> sys_use_http sys = (strcaseeq (rpc_mode config) ''http'' \<or> strcaseeq (rpc_mode config) ''dual''
         \<or> \<not> se_ws_thread_ok env)
     \<and> (sys_use_ws sys \<or> sys_use_http sys)"
proof -
  obtain r msgs where r: "start_system dround env config = (r, msgs)" by (cases "start_system dround env config")
  show ?thesis
  proof (cases "se_mutex_ok env \<and> queue_capacity config \<noteq> 0 \<and> se_calloc_ok env \<and> se_writer_thread_ok env")
    case False
    then have "r = Inl 1"
      using r by (auto simp: start_system_def yurei_rate_limiter_init_def yurei_queue_init_def yurei_db_writer_start_def
          unat_eq_0 Let_def split: if_splits)
    with r False show ?thesis by auto
  next
    case True
    obtain rl where rl: "yurei_rate_limiter_init dround (se_now env) (se_mutex_ok env) (rate_limit_rps config) = Some rl"
      "tokens rl = max_tokens rl"
      using True by (auto simp: yurei_rate_limiter_init_def Let_def)
    obtain q where q: "yurei_queue_init (se_calloc_ok env) (unat (queue_capacity config)) = Some q"
      using True by (auto simp: yurei_queue_init_def unat_eq_0)
    then have qf: "queue_inv q" "queue_contents q = []" "\<not> q_closed q" "q_capacity q = unat (queue_capacity config)"
      by (auto simp: queue_inv_init queue_contents_init yurei_queue_init_def split: if_splits)
    obtain sys later where s: "start_network env config (metrics_zero\<lparr>latency_min_us := UINT64_MAX\<rparr>) rl q
        \<lparr>w_running = True, w_config = config, w_shared_queue = q\<rparr> = (sys, later)" by (cases "start_network env config (metrics_zero\<lparr>latency_min_us := UINT64_MAX\<rparr>) rl q
        \<lparr>w_running = True, w_config = config, w_shared_queue = q\<rparr>")
    then have "r = Inr sys"
      using r rl q True by (auto simp: start_system_def yurei_db_writer_start_def Let_def)
    with r rl qf True start_network_modes [OF s] show ?thesis
      by (auto simp: metrics_after_Nil mode_uses_ws_def mode_uses_http_def)
  qed
qed

text \<open>
  A mutex that cannot be made ends the program; with everything available and the default
  settings the WebSocket client alone runs.
\<close>

definition sample_start_env :: "bool \<Rightarrow> start_env" where
  "sample_start_env mutex_ok = \<lparr>se_now = \<lparr>tv_sec = 100, tv_nsec = 0\<rparr>, se_mutex_ok = mutex_ok, se_calloc_ok = True,
     se_writer_thread_ok = True, se_ws_thread_ok = True, se_curl_ok = True, se_http_thread_ok = True\<rparr>"

theorem start_system_spec_witness:
  "fst (start_system dround (sample_start_env False) apply_defaults) = Inl 1
   \<and> (\<exists>sys. fst (start_system dround (sample_start_env True) apply_defaults) = Inr sys
        \<and> q_capacity (sys_queue sys) = 1024 \<and> sys_use_ws sys \<and> \<not> sys_use_http sys)"
  using start_system_spec [of "sample_start_env False" apply_defaults] start_system_spec [of "sample_start_env True" apply_defaults]
  by (auto simp: sample_start_env_def apply_defaults_def copy_string_def snprintf_str_def strcaseeq_def
      split: prod.splits sum.splits)

section \<open>The command line\<close>

text \<open>
  The command line: any number of \<open>-c path\<close> pairs selects the last path, the default being
  \<open>.env\<close>; the first argument behind them that is not such a pair decides alone, as a request
  for the usage or the version, or as an error with exit code 1, which a \<open>-c\<close> without a path is.
\<close>

theorem main_args_spec:
  assumes "list_all (\<lambda>(opt, path). opt = ''-c'' \<or> opt = ''--config'') pairs"
  shows "main_args (concat (map (\<lambda>(opt, path). [opt, path]) pairs) @ rest) =
    (if rest = [] then RunWith (last (''.env'' # map snd pairs))
     else if hd rest = ''-h'' \<or> hd rest = ''--help'' then ShowUsage 0
     else if hd rest = ''-v'' \<or> hd rest = ''--version'' then ShowVersion
     else if (hd rest = ''-c'' \<or> hd rest = ''--config'') \<and> tl rest \<noteq> [] then parse_args (hd (tl rest)) (tl (tl rest))
     else ShowUsage 1)"
proof -
  have a: "parse_args path (concat (map (\<lambda>(opt, path). [opt, path]) pairs) @ rest) =
      parse_args (last (path # map snd pairs)) rest" for path
    using assms by (induction pairs arbitrary: path) auto
  have b: "rest \<noteq> [] \<Longrightarrow> parse_args path rest =
     (if hd rest = ''-h'' \<or> hd rest = ''--help'' then ShowUsage 0
      else if hd rest = ''-v'' \<or> hd rest = ''--version'' then ShowVersion
      else if (hd rest = ''-c'' \<or> hd rest = ''--config'') \<and> tl rest \<noteq> [] then parse_args (hd (tl rest)) (tl (tl rest))
      else ShowUsage 1)" for path
    by (cases "(path, rest)" rule: parse_args.cases) auto
  show ?thesis
  proof (cases "rest = []")
    case True
    then show ?thesis unfolding main_args_def a by simp
  next
    case False
    then show ?thesis unfolding main_args_def a b [OF False] by simp
  qed
qed

theorem main_args_spec_witness:
  "main_args [''-c'', ''a.env'', ''--config'', ''b.env''] = RunWith ''b.env''
   \<and> main_args [''-c'', ''a.env'', ''-c''] = ShowUsage 1"
  using main_args_spec [of "[(''-c'', ''a.env''), (''--config'', ''b.env'')]" "[]"]
    main_args_spec [of "[(''-c'', ''a.env'')]" "[''-c'']"] by simp

section \<open>The metrics interval\<close>

lemma main_loop_spacing:
  "main_loop rounds started = logs \<Longrightarrow> sorted_wrt (\<lambda>a b. a + 60 \<le> b) (started # logs)"
proof (induction rounds arbitrary: started logs)
  case (Cons r rounds)
  obtain ex now where r: "r = (ex, now)" by (cases r)
  show ?case
  proof (cases "\<not> ex \<and> 60 \<le> now - started")
    case True
    then have l: "logs = now # main_loop rounds now" using Cons.prems r by (auto simp: METRICS_LOG_INTERVAL_SEC_def)
    have "sorted_wrt (\<lambda>a b. a + 60 \<le> b) (now # main_loop rounds now)" by (rule Cons.IH) simp
    with l True show ?thesis by fastforce
  next
    case False
    with Cons.prems r Cons.IH [of started logs] show ?thesis by (auto simp: METRICS_LOG_INTERVAL_SEC_def split: if_splits)
  qed
qed simp

lemma main_loop_covers:
  assumes "list_all (\<lambda>(ex, now). \<not> ex) rounds" and "sorted (started # map snd rounds)" and "t \<in> set (map snd rounds)"
  shows "\<exists>l \<in> set (started # main_loop rounds started). l \<le> t \<and> t < l + 60"
  using assms
proof (induction rounds arbitrary: started)
  case (Cons r rounds)
  obtain now where r: "r = (False, now)" using Cons.prems(1) by (cases r) auto
  show ?case
  proof (cases "60 \<le> now - started")
    case True
    then have l: "main_loop (r # rounds) started = now # main_loop rounds now" by (simp add: r METRICS_LOG_INTERVAL_SEC_def)
    have "\<exists>l \<in> set (now # main_loop rounds now). l \<le> t \<and> t < l + 60"
    proof (cases "t \<in> set (map snd rounds)")
      case True
      with Cons.IH [of now] Cons.prems(1,2) r show ?thesis by simp
    next
      case False
      with Cons.prems(3) r show ?thesis by auto
    qed
    with l show ?thesis by auto
  next
    case False
    then have l: "main_loop (r # rounds) started = main_loop rounds started" by (simp add: r METRICS_LOG_INTERVAL_SEC_def)
    show ?thesis
    proof (cases "t \<in> set (map snd rounds)")
      case True
      with Cons.IH [of started] Cons.prems(1,2) r l show ?thesis by auto
    next
      case t: False
      with Cons.prems(2,3) r False l show ?thesis by auto
    qed
  qed
qed simp

text \<open>
  Two metrics summaries are at least 60 seconds apart, and while the clock does not go back
  and the program is not told to exit, at every wake-up of the main loop the last summary, or
  the start, is less than 60 seconds old.
\<close>

theorem metrics_interval:
  assumes "list_all (\<lambda>(ex, now). \<not> ex) rounds" and "sorted (started # map snd rounds)"
  shows "sorted_wrt (\<lambda>a b. a + 60 \<le> b) (started # main_loop rounds started)
    \<and> list_all (\<lambda>t. \<exists>l \<in> set (started # main_loop rounds started). l \<le> t \<and> t < l + 60) (map snd rounds)"
  using main_loop_spacing [OF refl, of started rounds] main_loop_covers [OF assms] by (simp only: list_all_iff) blast

theorem metrics_interval_witness:
  "sorted_wrt (\<lambda>a b. a + 60 \<le> b) [100, 161, 222 :: int]
   \<and> main_loop [(False, 130), (False, 161), (False, 162), (False, 222)] 100 = [161, 222]"
  using metrics_interval [of "[(False, 130), (False, 161), (False, 162), (False, 222)]" 100]
  by (simp add: METRICS_LOG_INTERVAL_SEC_def)

end
