(* ===== verification/Shutdown.thy ===== *)
theory Shutdown
  imports Client_Main
begin

text \<open>
  The life of the started program as a transition system: the main thread of \<open>src/main.c\<close> from
  its loop through the shutdown sequence, one thread for each network component and the
  database thread, on the shared queue; and, as steps of their own at any time, the changes of
  the outside, the database and the RPC node. A thread that waits in the queue, in
  \<open>pthread_join\<close>, for the node or for the database has no step. The steps of a queue operation
  are those of \<open>Event_Queue\<close>; what wakes a waiting thread is theory \<open>Queue_Monitor\<close>.
\<close>

section \<open>Threads\<close>

text \<open>
  A network thread sets its library up, which can fail; then in each round it reads its flag
  \<open>running\<close>, calls the library for a message and pushes its events; the list is what is left to
  push, empty after a failed request. \<open>answers\<close> says whether the call of the library returns.
  That of \<open>lws_service\<close> does, with an event, on its timeout or after \<open>lws_cancel_service\<close>;
  \<open>curl_easy_perform\<close> has a limit on the time to connect only and waits for a node that
  accepts and never answers. The sleeps and the rate limiter are between two steps.
\<close>

datatype producer_pc =
    ProducerSetup
  | ProducerHead
  | Requesting
  | Delivering "YureiEvent list"
  | ProducerExited

inductive producer_step ::
  "bool \<Rightarrow> bool \<Rightarrow> YureiEventQueue \<Rightarrow> producer_pc \<Rightarrow> YureiEventQueue \<Rightarrow> producer_pc \<Rightarrow> bool"
  for answers :: bool and running :: bool where
  producer_ready: "producer_step answers running q ProducerSetup q ProducerHead"
| producer_exits: "\<not> running \<Longrightarrow> producer_step answers running q ProducerHead q ProducerExited"
| producer_asks: "running \<Longrightarrow> producer_step answers running q ProducerHead q Requesting"
| producer_answer: "answers \<Longrightarrow> producer_step answers running q Requesting q (Delivering es)"
| producer_push: "queue_push q e = Some (rc, q') \<Longrightarrow>
    producer_step answers running q (Delivering (e # es)) q' (Delivering es)"
| producer_done: "producer_step answers running q (Delivering []) q ProducerHead"

text \<open>
  The database thread. While the server accepts, an attempt to connect succeeds and a statement
  is executed or refused; while it refuses, attempts and statements fail; while it is silent,
  neither call of libpq returns. \<open>wait_for_connection\<close> does not look at \<open>running\<close>.
\<close>

datatype db_state = DbAccepts | DbRefuses | DbSilent

datatype writer_pc =
    WriterConnecting
  | WriterHead
  | Popping
  | Inserting YureiEvent
  | WriterExited

inductive writer_step ::
  "YureiConfig \<Rightarrow> db_state \<Rightarrow> bool \<Rightarrow> YureiEventQueue \<Rightarrow> writer_pc \<Rightarrow> YureiEventQueue \<Rightarrow> writer_pc \<Rightarrow> bool"
  for config :: YureiConfig and db :: db_state and running :: bool where
  writer_connects: "db = DbAccepts \<Longrightarrow> writer_step config db running q WriterConnecting q WriterHead"
| writer_stops: "\<not> running \<Longrightarrow> writer_step config db running q WriterHead q WriterExited"
| writer_goes_on: "running \<Longrightarrow> writer_step config db running q WriterHead q Popping"
| writer_takes: "queue_pop q = Some (0, Some e, q') \<Longrightarrow> writer_step config db running q Popping q' (Inserting e)"
| writer_ends: "queue_pop q = Some (rc, r, q') \<Longrightarrow> rc \<noteq> 0 \<Longrightarrow> writer_step config db running q Popping q' WriterExited"
| writer_no_table: "table_for_event (ev_kind e) config = None \<Longrightarrow>
    writer_step config db running q (Inserting e) q WriterHead"
| writer_inserted: "table_for_event (ev_kind e) config \<noteq> None \<Longrightarrow> db = DbAccepts \<Longrightarrow>
    writer_step config db running q (Inserting e) q WriterHead"
| writer_refused: "table_for_event (ev_kind e) config \<noteq> None \<Longrightarrow> db \<noteq> DbSilent \<Longrightarrow>
    writer_step config db running q (Inserting e) q WriterConnecting"

section \<open>The program\<close>

text \<open>The points of the main thread: its loop, then the calls of the shutdown in their order.\<close>

datatype main_pc =
    MainLoop
  | JoinWs
  | StopHttp
  | JoinHttp
  | CloseQueue
  | StopWriter
  | JoinWriter
  | MainDone

text \<open>\<open>s_db\<close> and \<open>s_node_answers\<close> are the outside; \<open>s_config\<close> does not change.\<close>

record program =
  s_main :: main_pc
  s_should_exit :: bool
  s_config :: YureiConfig
  s_queue :: YureiEventQueue
  s_use_ws :: bool
  s_use_http :: bool
  s_ws :: producer_pc
  s_http :: producer_pc
  s_writer :: writer_pc
  s_ws_running :: bool
  s_http_running :: bool
  s_writer_running :: bool
  s_db :: db_state
  s_node_answers :: bool

inductive program_step :: "program \<Rightarrow> program \<Rightarrow> bool" where
  step_signal: "\<not> s_should_exit s \<Longrightarrow> program_step s (s\<lparr>s_should_exit := True\<rparr>)"
| step_stop_ws: "s_main s = MainLoop \<Longrightarrow> s_should_exit s \<Longrightarrow> s_use_ws s \<Longrightarrow>
    program_step s (s\<lparr>s_main := JoinWs, s_ws_running := False\<rparr>)"
| step_no_ws: "s_main s = MainLoop \<Longrightarrow> s_should_exit s \<Longrightarrow> \<not> s_use_ws s \<Longrightarrow>
    program_step s (s\<lparr>s_main := StopHttp\<rparr>)"
| step_ws_joined: "s_main s = JoinWs \<Longrightarrow> s_ws s = ProducerExited \<Longrightarrow> program_step s (s\<lparr>s_main := StopHttp\<rparr>)"
| step_stop_http: "s_main s = StopHttp \<Longrightarrow> s_use_http s \<and> s_http_running s \<Longrightarrow>
    program_step s (s\<lparr>s_main := JoinHttp, s_http_running := False\<rparr>)"
| step_no_http: "s_main s = StopHttp \<Longrightarrow> \<not> (s_use_http s \<and> s_http_running s) \<Longrightarrow>
    program_step s (s\<lparr>s_main := CloseQueue\<rparr>)"
| step_http_joined: "s_main s = JoinHttp \<Longrightarrow> s_http s = ProducerExited \<Longrightarrow>
    program_step s (s\<lparr>s_main := CloseQueue\<rparr>)"
| step_close: "s_main s = CloseQueue \<Longrightarrow>
    program_step s (s\<lparr>s_main := StopWriter, s_queue := queue_close (s_queue s)\<rparr>)"
| step_stop_writer: "s_main s = StopWriter \<Longrightarrow>
    program_step s (s\<lparr>s_main := JoinWriter, s_writer_running := False\<rparr>)"
| step_writer_joined: "s_main s = JoinWriter \<Longrightarrow> s_writer s = WriterExited \<Longrightarrow>
    program_step s (s\<lparr>s_main := MainDone\<rparr>)"
| step_ws: "producer_step True (s_ws_running s) (s_queue s) (s_ws s) q pc \<Longrightarrow>
    program_step s (s\<lparr>s_queue := q, s_ws := pc\<rparr>)"
| step_ws_setup_fails: "s_ws s = ProducerSetup \<Longrightarrow>
    program_step s (s\<lparr>s_ws := ProducerExited, s_ws_running := False\<rparr>)"
| step_http_setup_fails: "s_http s = ProducerSetup \<Longrightarrow>
    program_step s (s\<lparr>s_http := ProducerExited, s_http_running := False\<rparr>)"
| step_http: "producer_step (s_node_answers s) (s_http_running s) (s_queue s) (s_http s) q pc \<Longrightarrow>
    program_step s (s\<lparr>s_queue := q, s_http := pc\<rparr>)"
| step_writer: "writer_step (s_config s) (s_db s) (s_writer_running s) (s_queue s) (s_writer s) q pc \<Longrightarrow>
    program_step s (s\<lparr>s_queue := q, s_writer := pc\<rparr>)"

text \<open>The outside changes at any time, in any way and any number of times.\<close>

inductive environment_step :: "program \<Rightarrow> program \<Rightarrow> bool" where
  database_changes: "environment_step s (s\<lparr>s_db := d\<rparr>)"
| node_changes: "environment_step s (s\<lparr>s_node_answers := b\<rparr>)"

inductive program_reachable :: "program \<Rightarrow> program \<Rightarrow> bool"
  for s0 :: program where
  program_start: "program_reachable s0 s0"
| program_next: "program_reachable s0 s \<Longrightarrow> program_step s t \<Longrightarrow> program_reachable s0 t"
| program_environment: "program_reachable s0 s \<Longrightarrow> environment_step s t \<Longrightarrow> program_reachable s0 t"

text \<open>The state in which \<open>main\<close> enters its loop.\<close>

definition program_init :: "db_state \<Rightarrow> bool \<Rightarrow> yurei_system \<Rightarrow> program" where
  "program_init db answers sys =
     (let http_running = (case sys_http sys of None \<Rightarrow> False | Some p \<Rightarrow> hp_running p)
      in \<lparr>s_main = MainLoop, s_should_exit = False, s_config = sys_config sys, s_queue = sys_queue sys,
          s_use_ws = sys_use_ws sys, s_use_http = sys_use_http sys,
          s_ws = (if sys_use_ws sys then ProducerSetup else ProducerExited),
          s_http = (if sys_use_http sys \<and> http_running then ProducerSetup else ProducerExited),
          s_writer = WriterConnecting, s_ws_running = sys_use_ws sys, s_http_running = http_running,
          s_writer_running = w_running (sys_writer sys), s_db = db, s_node_answers = answers\<rparr>)"

section \<open>The invariant\<close>

definition main_past_ws :: "main_pc \<Rightarrow> bool" where
  "main_past_ws pc = (pc \<noteq> MainLoop \<and> pc \<noteq> JoinWs)"

definition main_past_http :: "main_pc \<Rightarrow> bool" where
  "main_past_http pc = (pc \<in> {CloseQueue, StopWriter, JoinWriter, MainDone})"

definition program_inv :: "program \<Rightarrow> bool" where
  "program_inv s =
     (queue_inv (s_queue s)
      \<and> (main_past_ws (s_main s) \<or> \<not> s_use_ws s \<longrightarrow> s_ws s = ProducerExited)
      \<and> (main_past_http (s_main s) \<or> \<not> s_use_http s \<longrightarrow> s_http s = ProducerExited)
      \<and> (s_main s \<in> {MainLoop, JoinWs, StopHttp} \<and> \<not> s_http_running s \<longrightarrow> s_http s = ProducerExited)
      \<and> (s_main s = JoinWs \<longrightarrow> \<not> s_ws_running s)
      \<and> (s_main s = JoinHttp \<longrightarrow> \<not> s_http_running s)
      \<and> q_closed (s_queue s) = (s_main s \<in> {StopWriter, JoinWriter, MainDone})
      \<and> s_writer_running s = (s_main s \<notin> {JoinWriter, MainDone})
      \<and> (\<not> q_closed (s_queue s) \<longrightarrow> s_writer s \<noteq> WriterExited)
      \<and> (s_main s = MainDone \<longrightarrow> s_writer s = WriterExited))"

lemma producer_step_facts:
  assumes "producer_step answers running q pc q' pc'" and "queue_inv q"
  shows "queue_inv q' \<and> q_closed q' = q_closed q \<and> pc \<noteq> ProducerExited \<and> (pc' = ProducerExited \<longrightarrow> \<not> running)"
  using assms(1)
proof (cases rule: producer_step.cases)
  case (producer_push e rc es)
  with ring.push_inv [OF assms(2)] ring.push_keeps [OF assms(2)] show ?thesis by simp
qed (use assms(2) in simp_all)

lemma writer_step_facts:
  assumes "writer_step config db running q pc q' pc'" and "queue_inv q"
  shows "queue_inv q' \<and> q_closed q' = q_closed q \<and> pc \<noteq> WriterExited
    \<and> (pc' = WriterExited \<longrightarrow> \<not> running \<or> q_closed q)"
  using assms(1)
proof (cases rule: writer_step.cases)
  case (writer_takes e)
  from ring.pop_cases [OF assms(2) writer_takes(3)] writer_takes show ?thesis by simp
next
  case (writer_ends rc r)
  from ring.pop_cases [OF assms(2) writer_ends(3)] writer_ends show ?thesis
    using ring.pop_event [OF assms(2) _ writer_ends(3)] ring.pop_waits [OF assms(2)] by auto
qed (use assms(2) in simp_all)

lemma program_inv_step: "program_step s t \<Longrightarrow> program_inv s \<Longrightarrow> program_inv t"
proof (induction rule: program_step.induct)
  case (step_ws s q pc)
  with producer_step_facts [OF step_ws(1)] show ?case by (auto simp: program_inv_def)
next
  case (step_http s q pc)
  with producer_step_facts [OF step_http(1)] show ?case by (auto simp: program_inv_def)
next
  case (step_writer s q pc)
  with writer_step_facts [OF step_writer(1)] show ?case by (auto simp: program_inv_def)
qed (auto simp: program_inv_def main_past_ws_def main_past_http_def ring.close_inv ring.close_closed)

lemma program_inv_environment: "environment_step s t \<Longrightarrow> program_inv s \<Longrightarrow> program_inv t"
  by (induction rule: environment_step.induct) (simp_all add: program_inv_def)

lemma program_inv_reachable: "program_reachable s0 s \<Longrightarrow> program_inv s0 \<Longrightarrow> program_inv s"
  by (induction rule: program_reachable.induct) (auto intro: program_inv_step program_inv_environment)

lemma program_init_inv:
  assumes "queue_inv (sys_queue sys)" and "\<not> q_closed (sys_queue sys)" and "w_running (sys_writer sys)"
  shows "program_inv (program_init db answers sys)"
  using assms by (simp add: program_inv_def program_init_def main_past_ws_def main_past_http_def Let_def)

section \<open>Where the program can hang\<close>

text \<open>No thread has a step, as long as the outside does not change.\<close>

definition program_stuck :: "program \<Rightarrow> bool" where
  "program_stuck s = (\<forall>t. \<not> program_step s t)"

lemma stuck_producer:
  assumes "\<forall>q' pc'. \<not> producer_step answers False q pc q' pc'" and "pc \<noteq> ProducerExited"
  shows "(\<exists>e es. pc = Delivering (e # es) \<and> queue_push q e = None) \<or> pc = Requesting \<and> \<not> answers"
proof (cases pc)
  case ProducerSetup
  with assms(1) producer_ready [of answers False q] show ?thesis by simp
next
  case ProducerHead
  with assms(1) producer_exits [of False answers q] show ?thesis by simp
next
  case Requesting
  with assms(1) producer_answer [of answers False q] show ?thesis by auto
next
  case (Delivering es)
  show ?thesis
  proof (cases es)
    case Nil
    with Delivering assms(1) producer_done [of answers False q] show ?thesis by simp
  next
    case (Cons e es')
    with Delivering assms(1) producer_push [of q e _ _ answers False es'] show ?thesis by (cases "queue_push q e") auto
  qed
qed (use assms(2) in simp)

text \<open>The writer waits for the database: for a connection, or for the result of a statement.\<close>

definition writer_awaits_db :: "program \<Rightarrow> bool" where
  "writer_awaits_db s =
     (s_writer s = WriterConnecting \<and> s_db s \<noteq> DbAccepts
      \<or> (\<exists>e. s_writer s = Inserting e \<and> table_for_event (ev_kind e) (s_config s) \<noteq> None \<and> s_db s = DbSilent))"

lemma stuck_writer:
  assumes "\<forall>q' pc'. \<not> writer_step (s_config s) (s_db s) running (s_queue s) (s_writer s) q' pc'"
    and "queue_inv (s_queue s)" and "s_writer s \<noteq> WriterExited"
  shows "writer_awaits_db s \<or> s_writer s = Popping \<and> queue_contents (s_queue s) = [] \<and> \<not> q_closed (s_queue s)"
proof (cases "s_writer s")
  case WriterConnecting
  with assms(1) writer_connects [of "s_db s" "s_config s" running "s_queue s"] show ?thesis
    by (auto simp: writer_awaits_db_def)
next
  case WriterHead
  with assms(1) writer_stops [of running "s_config s" "s_db s" "s_queue s"]
    writer_goes_on [of running "s_config s" "s_db s" "s_queue s"] show ?thesis by (cases running) auto
next
  case Popping
  have "queue_pop (s_queue s) = None"
  proof (rule ccontr)
    assume "queue_pop (s_queue s) \<noteq> None"
    then obtain rc r q' where p: "queue_pop (s_queue s) = Some (rc, r, q')" by auto
    from ring.pop_cases [OF assms(2) p] have "rc \<noteq> 0 \<or> rc = 0 \<and> (\<exists>e. r = Some e)" by (cases r) auto
    with assms(1) Popping p writer_takes [of "s_queue s" _ q' "s_config s" "s_db s" running]
      writer_ends [of "s_queue s" rc r q' "s_config s" "s_db s" running] show False by auto
  qed
  with ring.pop_waits [OF assms(2)] Popping show ?thesis by blast
next
  case (Inserting e)
  with assms(1) writer_no_table [of e "s_config s" "s_db s" running "s_queue s"]
    writer_refused [of e "s_config s" "s_db s" running "s_queue s"] show ?thesis
    by (auto simp: writer_awaits_db_def)
qed (use assms(3) in simp)

lemma stuck_threads:
  assumes "program_stuck s"
  shows "\<forall>q pc. \<not> producer_step True (s_ws_running s) (s_queue s) (s_ws s) q pc"
    and "\<forall>q pc. \<not> producer_step (s_node_answers s) (s_http_running s) (s_queue s) (s_http s) q pc"
    and "\<forall>q pc. \<not> writer_step (s_config s) (s_db s) (s_writer_running s) (s_queue s) (s_writer s) q pc"
  using assms step_ws step_http step_writer unfolding program_stuck_def by blast+

lemma stuck_main:
  assumes "program_stuck s"
  shows "s_main s = JoinWs \<and> s_ws s \<noteq> ProducerExited \<or> s_main s = JoinHttp \<and> s_http s \<noteq> ProducerExited
    \<or> s_main s = JoinWriter \<and> s_writer s \<noteq> WriterExited \<or> s_main s = MainDone"
proof -
  note n = assms [unfolded program_stuck_def]
  have e: "s_should_exit s" using n step_signal by blast
  show ?thesis
  proof (cases "s_main s")
    case MainLoop
    with e n step_stop_ws step_no_ws show ?thesis by blast
  next
    case StopHttp
    with n step_stop_http step_no_http show ?thesis by blast
  next
    case CloseQueue
    with n step_close show ?thesis by blast
  next
    case StopWriter
    with n step_stop_writer show ?thesis by blast
  qed (use n step_ws_joined step_http_joined step_writer_joined in blast)+
qed

lemma queue_inv_capacity: "queue_inv q \<Longrightarrow> q_capacity q \<noteq> 0"
  by (simp add: queue_inv_def)

text \<open>A push waits on a full queue, and then the writer, if it has no step, waits for the database.\<close>

lemma stuck_on_queue:
  assumes "queue_inv (s_queue s)" and "queue_push (s_queue s) e = None"
    and "\<forall>q' pc'. \<not> writer_step (s_config s) (s_db s) running (s_queue s) (s_writer s) q' pc'"
    and "s_writer s \<noteq> WriterExited"
  shows "writer_awaits_db s \<and> length (queue_contents (s_queue s)) = q_capacity (s_queue s) \<and> \<not> q_closed (s_queue s)"
proof -
  have full: "length (queue_contents (s_queue s)) = q_capacity (s_queue s)" "\<not> q_closed (s_queue s)"
    using ring.push_waits [OF assms(1)] assms(2) by auto
  then have "queue_contents (s_queue s) \<noteq> []" using queue_inv_capacity [OF assms(1)] by (metis list.size(3))
  with stuck_writer [OF assms(3,1,4)] full show ?thesis by blast
qed

lemma stuck_reasons:
  assumes "program_reachable (program_init db answers sys) s" and "queue_inv (sys_queue sys)"
    and "\<not> q_closed (sys_queue sys)" and "w_running (sys_writer sys)"
    and "program_stuck s" and "s_main s \<noteq> MainDone"
  shows "s_main s = JoinHttp \<and> s_http s = Requesting \<and> \<not> s_node_answers s
    \<or> writer_awaits_db s
      \<and> (s_main s = JoinWriter
         \<or> s_main s \<in> {JoinWs, JoinHttp} \<and> length (queue_contents (s_queue s)) = q_capacity (s_queue s)
             \<and> \<not> q_closed (s_queue s))"
proof -
  have inv: "program_inv s"
    by (rule program_inv_reachable [OF assms(1) program_init_inv [OF assms(2-4)]])
  then have q: "queue_inv (s_queue s)" by (simp add: program_inv_def)
  note st = stuck_threads [OF assms(5)]
  from stuck_main [OF assms(5)] assms(6) consider
      "s_main s = JoinWs" "s_ws s \<noteq> ProducerExited" | "s_main s = JoinHttp" "s_http s \<noteq> ProducerExited"
    | "s_main s = JoinWriter" "s_writer s \<noteq> WriterExited" by blast
  then show ?thesis
  proof cases
    case 1
    with inv have w: "\<not> s_ws_running s" "s_writer s \<noteq> WriterExited" by (auto simp: program_inv_def)
    then obtain e where "queue_push (s_queue s) e = None" using stuck_producer [OF _ 1(2), of True "s_queue s"] st(1) by auto
    from stuck_on_queue [OF q this st(3) w(2)] 1(1) show ?thesis by simp
  next
    case 2
    with inv have w: "\<not> s_http_running s" "s_writer s \<noteq> WriterExited" by (auto simp: program_inv_def)
    then consider e where "queue_push (s_queue s) e = None" | "s_http s = Requesting" "\<not> s_node_answers s"
      using stuck_producer [OF _ 2(2), of "s_node_answers s" "s_queue s"] st(2) by auto
    then show ?thesis
    proof cases
      case e: 1
      from stuck_on_queue [OF q e st(3) w(2)] 2(1) show ?thesis by simp
    qed (use 2(1) in simp)
  next
    case 3
    with inv have "q_closed (s_queue s)" by (auto simp: program_inv_def)
    with stuck_writer [OF st(3) q 3(2)] 3(1) show ?thesis by simp
  qed
qed

text \<open>
  C1. Where the program can hang, with any number of messages, any interleaving and any changes of
  the database and the node: if no thread can go on before \<open>main\<close> has returned, then \<open>main\<close>
  joins the HTTP thread while a request waits for a node that does not answer, or the writer
  waits for the database, which does not accept connections or does not answer a statement,
  and \<open>main\<close> is joining either the writer or a network thread that waits for room in the full
  queue, which \<open>main\<close> would only close after the join. While the database accepts and the
  node answers it always goes on until \<open>main\<close> returns.
\<close>

theorem program_hangs_only_on_outside:
  assumes "program_reachable (program_init db answers sys) s" and "queue_inv (sys_queue sys)"
    and "\<not> q_closed (sys_queue sys)" and "w_running (sys_writer sys)"
    and "program_stuck s" and "s_main s \<noteq> MainDone"
  shows "s_main s = JoinHttp \<and> s_http s = Requesting \<and> \<not> s_node_answers s
    \<or> (s_writer s = WriterConnecting \<and> s_db s \<noteq> DbAccepts
        \<or> (\<exists>e. s_writer s = Inserting e \<and> table_for_event (ev_kind e) (s_config s) \<noteq> None \<and> s_db s = DbSilent))
      \<and> (s_main s = JoinWriter
         \<or> s_main s \<in> {JoinWs, JoinHttp} \<and> length (queue_contents (s_queue s)) = q_capacity (s_queue s)
             \<and> \<not> q_closed (s_queue s))"
  using stuck_reasons [OF assms] unfolding writer_awaits_db_def .

section \<open>The hangs happen\<close>

inductive_simps producer_at_exit: "producer_step answers running q ProducerExited q' pc"
inductive_simps producer_at_push: "producer_step answers running q (Delivering (e # es)) q' pc"
inductive_simps producer_at_request: "producer_step answers running q Requesting q' pc"
inductive_simps writer_at_connect: "writer_step config db running q WriterConnecting q' pc"
inductive_simps writer_at_pop: "writer_step config db running q Popping q' pc"

text \<open>A run of the threads alone: the outside stays as it is.\<close>

abbreviation program_run :: "program \<Rightarrow> program \<Rightarrow> bool" where
  "program_run \<equiv> program_step\<^sup>*\<^sup>*"

lemma program_run_reachable: "program_run s t \<Longrightarrow> program_reachable s0 s \<Longrightarrow> program_reachable s0 t"
  by (induction rule: rtranclp.induct) (auto intro: program_next)

text \<open>The WebSocket thread can push events as long as they fit.\<close>

lemma ws_delivers:
  assumes "queue_inv (s_queue s)" and "\<not> q_closed (s_queue s)" and "s_ws s = Delivering (es @ rest)"
    and "length (queue_contents (s_queue s)) + length es \<le> q_capacity (s_queue s)"
  shows "\<exists>q. program_run s (s\<lparr>s_queue := q, s_ws := Delivering rest\<rparr>)
    \<and> queue_contents q = queue_contents (s_queue s) @ es \<and> q_capacity q = q_capacity (s_queue s)
    \<and> queue_inv q \<and> \<not> q_closed q"
  using assms
proof (induction es arbitrary: s)
  case Nil
  then have e: "s\<lparr>s_queue := s_queue s, s_ws := Delivering rest\<rparr> = s" by (cases s) simp
  from Nil show ?case by (intro exI [of _ "s_queue s"], unfold e) simp
next
  case (Cons e es)
  have "length (queue_contents (s_queue s)) \<noteq> q_capacity (s_queue s)" using Cons.prems(4) by simp
  then obtain rc q1 where p: "queue_push (s_queue s) e = Some (rc, q1)"
    using ring.push_waits [OF Cons.prems(1), of e] by (cases "queue_push (s_queue s) e") auto
  note o = ring.push_open [OF Cons.prems(1,2) p]
  let ?s1 = "s\<lparr>s_queue := q1, s_ws := Delivering (es @ rest)\<rparr>"
  have st: "program_step s ?s1" using Cons.prems(3) p by (intro step_ws) (simp add: producer_push)
  have "length (queue_contents (s_queue ?s1)) + length es \<le> q_capacity (s_queue ?s1)" using o Cons.prems(4) by simp
  then obtain q where q: "program_run ?s1 (?s1\<lparr>s_queue := q, s_ws := Delivering rest\<rparr>)"
    "queue_contents q = queue_contents q1 @ es" "q_capacity q = q_capacity q1" "queue_inv q" "\<not> q_closed q"
    using Cons.IH [of ?s1] o by auto
  with converse_rtranclp_into_rtranclp [of program_step, OF st q(1)] o show ?case by (intro exI [of _ q]) simp
qed

lemma stuck_at_join:
  assumes "s_main s = JoinWs" and "s_should_exit s" and "s_ws s = Delivering [e]" and "s_http s = ProducerExited"
    and "s_writer s = WriterConnecting" and "queue_push (s_queue s) e = None" and "s_db s \<noteq> DbAccepts"
  shows "program_stuck s"
  unfolding program_stuck_def
proof (intro allI notI)
  fix t
  assume "program_step s t"
  then show False
    by (cases rule: program_step.cases)
       (use assms in \<open>simp_all add: producer_at_exit producer_at_push writer_at_connect\<close>)
qed

lemma hang_reachable:
  assumes "queue_inv (sys_queue sys)" and "\<not> q_closed (sys_queue sys)" and "queue_contents (sys_queue sys) = []"
    and "sys_use_ws sys" and "\<not> sys_use_http sys" and "db \<noteq> DbAccepts"
  shows "\<exists>s. program_run (program_init db answers sys) s \<and> program_stuck s \<and> s_should_exit s
    \<and> s_main s = JoinWs \<and> length (queue_contents (s_queue s)) = q_capacity (sys_queue sys) \<and> s_db s = db"
proof -
  let ?cap = "q_capacity (sys_queue sys)" and ?s0 = "program_init db answers sys"
  let ?es = "replicate ?cap zero_event @ [zero_event]"
  let ?sr = "?s0\<lparr>s_queue := s_queue ?s0, s_ws := ProducerHead\<rparr>"
  let ?sq = "?sr\<lparr>s_queue := s_queue ?sr, s_ws := Requesting\<rparr>"
  let ?s1 = "?sq\<lparr>s_queue := s_queue ?sq, s_ws := Delivering ?es\<rparr>"
  have i: "s_ws ?s0 = ProducerSetup" "s_ws_running ?s0" "s_queue ?s0 = sys_queue sys" "s_http ?s0 = ProducerExited"
    "s_writer ?s0 = WriterConnecting" "s_main ?s0 = MainLoop" "s_use_ws ?s0" "\<not> s_should_exit ?s0" "s_db ?s0 = db"
    using assms(4,5) by (simp_all add: program_init_def Let_def)
  have p1: "program_step ?s0 ?sr" using i(1) by (intro step_ws) (simp add: producer_ready)
  have p2: "program_step ?sr ?sq" using i(2) by (intro step_ws) (simp add: producer_asks)
  have p3: "program_step ?sq ?s1" by (intro step_ws) (simp add: producer_answer)
  obtain q where r2: "program_run ?s1 (?s1\<lparr>s_queue := q, s_ws := Delivering [zero_event]\<rparr>)"
    and q: "queue_contents q = replicate ?cap zero_event" "q_capacity q = ?cap" "queue_inv q" "\<not> q_closed q"
    using ws_delivers [of ?s1 "replicate ?cap zero_event" "[zero_event]"] assms(1-3) i by auto
  let ?s2 = "?s1\<lparr>s_queue := q, s_ws := Delivering [zero_event]\<rparr>"
  let ?s3 = "?s2\<lparr>s_should_exit := True\<rparr>" and ?s4 = "?s2\<lparr>s_should_exit := True, s_main := JoinWs, s_ws_running := False\<rparr>"
  have "program_run ?s0 ?s2"
    using p1 p2 p3 r2 by (meson converse_rtranclp_into_rtranclp)
  moreover have "program_step ?s2 ?s3" by (rule step_signal) (simp add: i)
  moreover have "program_step ?s3 ?s4" using step_stop_ws [of ?s3] i by simp
  ultimately have r4: "program_run ?s0 ?s4" by (meson rtranclp.rtrancl_into_rtrancl)
  have "queue_push q zero_event = None" using ring.push_waits [OF q(3)] q by simp
  then have "program_stuck ?s4" using assms(6) by (intro stuck_at_join [of _ zero_event]) (simp_all add: i)
  with r4 q show ?thesis by (intro exI [of _ ?s4]) (simp add: i)
qed

text \<open>
  C25. And it does hang: started in the default mode, with the database refusing connections all
  the time, the program can reach a state in which it was told to exit and no thread can take
  a step ever again, with \<open>main\<close> joining the WebSocket thread, the queue full and all its
  events lost. The same holds with a silent database.
\<close>

theorem shutdown_can_hang:
  assumes "queue_inv (sys_queue sys)" and "\<not> q_closed (sys_queue sys)" and "queue_contents (sys_queue sys) = []"
    and "sys_use_ws sys" and "\<not> sys_use_http sys" and "db \<noteq> DbAccepts"
  shows "\<exists>s. program_step\<^sup>*\<^sup>* (program_init db answers sys) s \<and> program_stuck s \<and> s_should_exit s
    \<and> s_main s = JoinWs \<and> length (queue_contents (s_queue s)) = q_capacity (sys_queue sys) \<and> s_db s = db"
  by (rule hang_reachable [OF assms])

lemma stuck_in_request:
  assumes "s_main s = JoinHttp" and "s_should_exit s" and "s_ws s = ProducerExited" and "s_http s = Requesting"
    and "s_writer s = Popping" and "queue_pop (s_queue s) = None" and "\<not> s_node_answers s"
  shows "program_stuck s"
  unfolding program_stuck_def
proof (intro allI notI)
  fix t
  assume "program_step s t"
  then show False
    by (cases rule: program_step.cases)
       (use assms in \<open>simp_all add: producer_at_exit producer_at_request writer_at_pop\<close>)
qed

lemma request_hang_reachable:
  assumes "queue_inv (sys_queue sys)" and "\<not> q_closed (sys_queue sys)" and "queue_contents (sys_queue sys) = []"
    and "w_running (sys_writer sys)" and "\<not> sys_use_ws sys" and "sys_use_http sys"
    and "sys_http sys = Some p" and "hp_running p"
  shows "\<exists>s. program_run (program_init DbAccepts False sys) s \<and> program_stuck s \<and> s_should_exit s
    \<and> s_main s = JoinHttp \<and> s_http s = Requesting \<and> s_db s = DbAccepts"
proof -
  let ?s0 = "program_init DbAccepts False sys"
  let ?q = "sys_queue sys"
  have i: "s_http ?s0 = ProducerSetup" "s_http_running ?s0" "s_queue ?s0 = ?q" "s_ws ?s0 = ProducerExited"
    "s_writer ?s0 = WriterConnecting" "s_main ?s0 = MainLoop" "\<not> s_use_ws ?s0" "\<not> s_should_exit ?s0"
    "s_db ?s0 = DbAccepts" "s_use_http ?s0" "s_writer_running ?s0" "\<not> s_node_answers ?s0"
    using assms(4-8) by (simp_all add: program_init_def Let_def)
  let ?s1 = "?s0\<lparr>s_queue := ?q, s_http := ProducerHead\<rparr>"
  let ?s2 = "?s1\<lparr>s_queue := ?q, s_http := Requesting\<rparr>"
  let ?s3 = "?s2\<lparr>s_queue := ?q, s_writer := WriterHead\<rparr>"
  let ?s4 = "?s3\<lparr>s_queue := ?q, s_writer := Popping\<rparr>"
  let ?s5 = "?s4\<lparr>s_should_exit := True\<rparr>"
  let ?s6 = "?s5\<lparr>s_main := StopHttp\<rparr>"
  let ?s7 = "?s6\<lparr>s_main := JoinHttp, s_http_running := False\<rparr>"
  have p: "program_step ?s0 ?s1" "program_step ?s1 ?s2" "program_step ?s2 ?s3" "program_step ?s3 ?s4"
    using i by (intro step_http step_writer; simp add: producer_ready producer_asks writer_connects writer_goes_on)+
  have p5: "program_step ?s4 ?s5" using i by (intro step_signal) simp
  have p6: "program_step ?s5 ?s6" using i by (intro step_no_ws) simp_all
  have p7: "program_step ?s6 ?s7" using i by (intro step_stop_http) simp_all
  have "program_run ?s0 ?s4"
    using p by (meson converse_rtranclp_into_rtranclp rtranclp.rtrancl_refl)
  then have r: "program_run ?s0 ?s7" using p5 p6 p7 by (meson rtranclp.rtrancl_into_rtrancl)
  have "queue_pop ?q = None" using ring.pop_waits [OF assms(1)] assms(2,3) by simp
  then have "program_stuck ?s7" by (intro stuck_in_request) (simp_all add: i)
  with r show ?thesis by (intro exI [of _ ?s7]) (simp add: i)
qed

text \<open>
  A node that accepts a request and never answers it is enough to hang the shutdown, with the
  database accepting all the time: in the mode \<open>http\<close> the program can reach a state in which it
  was told to exit, \<open>main\<close> joins the HTTP thread, the request has no limit on its time, and no
  thread can take a step.
\<close>

theorem silent_node_hangs:
  assumes "queue_inv (sys_queue sys)" and "\<not> q_closed (sys_queue sys)" and "queue_contents (sys_queue sys) = []"
    and "w_running (sys_writer sys)" and "\<not> sys_use_ws sys" and "sys_use_http sys"
    and "sys_http sys = Some p" and "hp_running p"
  shows "\<exists>s. program_step\<^sup>*\<^sup>* (program_init DbAccepts False sys) s \<and> program_stuck s \<and> s_should_exit s
    \<and> s_main s = JoinHttp \<and> s_http s = Requesting \<and> s_db s = DbAccepts"
  by (rule request_hang_reachable [OF assms])

text \<open>
  C13. When \<open>main\<close> destroys the queue and the rate limiter, every other thread has ended and the queue
  is closed: nothing uses them any more.
\<close>

theorem teardown_is_safe:
  assumes "program_reachable (program_init db answers sys) s" and "queue_inv (sys_queue sys)"
    and "\<not> q_closed (sys_queue sys)" and "w_running (sys_writer sys)" and "s_main s = MainDone"
  shows "s_ws s = ProducerExited \<and> s_http s = ProducerExited \<and> s_writer s = WriterExited \<and> q_closed (s_queue s)"
  using program_inv_reachable [OF assms(1) program_init_inv [OF assms(2-4)]] assms(5)
  by (simp add: program_inv_def main_past_ws_def main_past_http_def)

text \<open>Systems in the default mode and in the mode \<open>http\<close> for examples.\<close>

definition sample_system :: yurei_system where
  "sample_system = \<lparr>sys_config = sample_config, sys_metrics = metrics_zero, sys_rate_limiter = sample_limiter,
     sys_queue = empty_queue, sys_writer = \<lparr>w_running = True, w_config = sample_config, w_shared_queue = empty_queue\<rparr>,
     sys_ws = None, sys_http = None, sys_use_ws = True, sys_use_http = False\<rparr>"

definition sample_http_system :: yurei_system where
  "sample_http_system = sample_system\<lparr>sys_use_ws := False, sys_use_http := True, sys_http := Some sample_poller\<rparr>"

lemma sample_system_facts: "queue_inv (sys_queue sample_system)" "\<not> q_closed (sys_queue sample_system)"
    "queue_contents (sys_queue sample_system) = []" "w_running (sys_writer sample_system)"
    "sys_use_ws sample_system" "\<not> sys_use_http sample_system" "q_capacity (sys_queue sample_system) = 4"
  by (simp_all add: sample_system_def empty_queue_facts)

lemma sample_http_system_facts: "queue_inv (sys_queue sample_http_system)" "\<not> q_closed (sys_queue sample_http_system)"
    "queue_contents (sys_queue sample_http_system) = []" "w_running (sys_writer sample_http_system)"
    "\<not> sys_use_ws sample_http_system" "sys_use_http sample_http_system"
    "sys_http sample_http_system = Some sample_poller" "hp_running sample_poller"
  by (simp_all add: sample_http_system_def sample_system_def empty_queue_facts sample_poller_def)

theorem shutdown_can_hang_witness:
  "\<exists>s. program_step\<^sup>*\<^sup>* (program_init DbRefuses True sample_system) s \<and> program_stuck s
    \<and> length (queue_contents (s_queue s)) = 4"
  using shutdown_can_hang [OF sample_system_facts(1-3,5,6), of DbRefuses True] unfolding sample_system_facts by blast

theorem silent_node_hangs_witness:
  "\<exists>s. program_step\<^sup>*\<^sup>* (program_init DbAccepts False sample_http_system) s \<and> program_stuck s \<and> s_http s = Requesting"
  using silent_node_hangs [OF sample_http_system_facts] by blast

text \<open>Both reasons for a hang occur.\<close>

theorem program_hangs_only_on_outside_witness:
  "(\<exists>s. program_reachable (program_init DbRefuses True sample_system) s \<and> program_stuck s \<and> s_writer s = WriterConnecting)
   \<and> (\<exists>s. program_reachable (program_init DbAccepts False sample_http_system) s \<and> program_stuck s
        \<and> s_main s = JoinHttp \<and> s_http s = Requesting \<and> \<not> s_node_answers s)"
proof
  obtain s where s: "program_run (program_init DbRefuses True sample_system) s" "program_stuck s" "s_main s = JoinWs"
    "s_db s = DbRefuses" using hang_reachable [OF sample_system_facts(1-3,5,6), of DbRefuses True] by auto
  from program_run_reachable [OF s(1) program_start]
  have r: "program_reachable (program_init DbRefuses True sample_system) s" .
  from program_hangs_only_on_outside [OF r sample_system_facts(1,2,4) s(2)] r s(2-4)
  show "\<exists>s. program_reachable (program_init DbRefuses True sample_system) s \<and> program_stuck s
      \<and> s_writer s = WriterConnecting" by auto
next
  obtain s where s: "program_run (program_init DbAccepts False sample_http_system) s" "program_stuck s"
    "s_main s = JoinHttp" "s_db s = DbAccepts" using request_hang_reachable [OF sample_http_system_facts] by blast
  from program_run_reachable [OF s(1) program_start]
  have r: "program_reachable (program_init DbAccepts False sample_http_system) s" .
  from program_hangs_only_on_outside [OF r sample_http_system_facts(1,2,4) s(2)] r s(2-4)
  show "\<exists>s. program_reachable (program_init DbAccepts False sample_http_system) s \<and> program_stuck s
      \<and> s_main s = JoinHttp \<and> s_http s = Requesting \<and> \<not> s_node_answers s" by auto
qed

text \<open>A run of the sample system from start to end, with no message.\<close>

lemma sample_stop_run:
  "\<exists>s t. program_run (program_init DbAccepts True sample_system) s \<and> s_main s = JoinWs \<and> s_ws s = ProducerHead
     \<and> s_http s = ProducerExited \<and> s_writer s = WriterConnecting \<and> s_queue s = empty_queue \<and> \<not> s_ws_running s
     \<and> \<not> s_http_running s \<and> (program_step ^^ 8) s t \<and> s_main t = MainDone"
proof -
  let ?s0 = "program_init DbAccepts True sample_system"
  have i: "s_ws ?s0 = ProducerSetup" "s_main ?s0 = MainLoop" "s_use_ws ?s0" "\<not> s_should_exit ?s0" "\<not> s_use_http ?s0"
    "s_writer ?s0 = WriterConnecting" "s_http ?s0 = ProducerExited" "\<not> s_http_running ?s0" "s_queue ?s0 = empty_queue"
    "s_db ?s0 = DbAccepts"
    by (simp_all add: program_init_def sample_system_def)
  let ?sr = "?s0\<lparr>s_queue := s_queue ?s0, s_ws := ProducerHead\<rparr>"
  let ?s1 = "?sr\<lparr>s_should_exit := True\<rparr>"
  let ?s2 = "?s1\<lparr>s_main := JoinWs, s_ws_running := False\<rparr>"
  let ?s3 = "?s2\<lparr>s_queue := s_queue ?s2, s_ws := ProducerExited\<rparr>"
  let ?s4 = "?s3\<lparr>s_main := StopHttp\<rparr>"
  let ?s5 = "?s4\<lparr>s_main := CloseQueue\<rparr>"
  let ?s6 = "?s5\<lparr>s_main := StopWriter, s_queue := queue_close (s_queue ?s5)\<rparr>"
  let ?s7 = "?s6\<lparr>s_queue := s_queue ?s6, s_writer := WriterHead\<rparr>"
  let ?s8 = "?s7\<lparr>s_main := JoinWriter, s_writer_running := False\<rparr>"
  let ?s9 = "?s8\<lparr>s_queue := s_queue ?s8, s_writer := WriterExited\<rparr>"
  let ?t = "?s9\<lparr>s_main := MainDone\<rparr>"
  have p0: "program_step ?s0 ?sr" using i(1) by (intro step_ws) (simp add: producer_ready)
  have p1: "program_step ?sr ?s1" using i by (intro step_signal) simp
  have p2: "program_step ?s1 ?s2" using i by (intro step_stop_ws) simp_all
  have r2: "program_run ?s0 ?s2" using p0 p1 p2 by (meson converse_rtranclp_into_rtranclp rtranclp.rtrancl_refl)
  have p3: "program_step ?s2 ?s3" using i by (intro step_ws) (simp add: producer_exits)
  have p4: "program_step ?s3 ?s4" by (intro step_ws_joined) simp_all
  have p5: "program_step ?s4 ?s5" using i by (intro step_no_http) simp_all
  have p6: "program_step ?s5 ?s6" by (intro step_close) simp
  have p7: "program_step ?s6 ?s7" using i by (intro step_writer) (simp add: writer_connects)
  have p8: "program_step ?s7 ?s8" by (intro step_stop_writer) simp
  have p9: "program_step ?s8 ?s9" by (intro step_writer) (simp add: writer_stops)
  have p10: "program_step ?s9 ?t" by (intro step_writer_joined) simp_all
  have q3: "(program_step ^^ Suc 0) ?s2 ?s3" using relpowp_0_I p3 by (rule relpowp_Suc_I)
  have q4: "(program_step ^^ Suc (Suc 0)) ?s2 ?s4" using q3 p4 by (rule relpowp_Suc_I)
  have q5: "(program_step ^^ Suc (Suc (Suc 0))) ?s2 ?s5" using q4 p5 by (rule relpowp_Suc_I)
  have q6: "(program_step ^^ Suc (Suc (Suc (Suc 0)))) ?s2 ?s6" using q5 p6 by (rule relpowp_Suc_I)
  have q7: "(program_step ^^ Suc (Suc (Suc (Suc (Suc 0))))) ?s2 ?s7" using q6 p7 by (rule relpowp_Suc_I)
  have q8: "(program_step ^^ Suc (Suc (Suc (Suc (Suc (Suc 0)))))) ?s2 ?s8" using q7 p8 by (rule relpowp_Suc_I)
  have q9: "(program_step ^^ Suc (Suc (Suc (Suc (Suc (Suc (Suc 0))))))) ?s2 ?s9" using q8 p9 by (rule relpowp_Suc_I)
  have q10: "(program_step ^^ Suc (Suc (Suc (Suc (Suc (Suc (Suc (Suc 0)))))))) ?s2 ?t" using q9 p10 by (rule relpowp_Suc_I)
  have "Suc (Suc (Suc (Suc (Suc (Suc (Suc (Suc 0))))))) = (8 :: nat)" by simp
  with q10 have "(program_step ^^ 8) ?s2 ?t" by (rule subst [rotated])
  with r2 i show ?thesis by (intro exI [of _ ?s2] exI [of _ ?t]) simp
qed

lemma sample_run_ends: "\<exists>s. program_reachable (program_init DbAccepts True sample_system) s \<and> s_main s = MainDone"
  using sample_stop_run program_run_reachable [OF _ program_start] by (meson relpowp_imp_rtranclp rtranclp_trans)

theorem teardown_is_safe_witness:
  "\<exists>s. program_reachable (program_init DbAccepts True sample_system) s \<and> s_main s = MainDone \<and> s_writer s = WriterExited
    \<and> q_closed (s_queue s)"
proof -
  obtain s where s: "program_reachable (program_init DbAccepts True sample_system) s" "s_main s = MainDone"
    using sample_run_ends by blast
  from teardown_is_safe [OF s(1) sample_system_facts(1,2,4) s(2)] s show ?thesis by blast
qed

end
