(* ===== verification/Shutdown_Progress.thy ===== *)
theory Shutdown_Progress
  imports Shutdown
begin

text \<open>
  How long the shutdown takes: once \<open>main\<close> has cleared \<open>running\<close> of the network threads, every
  step of every thread ends one of at most two requests that are still out, or uses up some of
  a finite amount of work, whatever the schedule, whatever the outside does in between and
  however often the server refuses a statement.
\<close>

section \<open>The work that is left\<close>

fun main_work :: "main_pc \<Rightarrow> nat" where
  "main_work MainLoop = 7"
| "main_work JoinWs = 6"
| "main_work StopHttp = 5"
| "main_work JoinHttp = 4"
| "main_work CloseQueue = 3"
| "main_work StopWriter = 2"
| "main_work JoinWriter = 1"
| "main_work MainDone = 0"

fun producer_work :: "producer_pc \<Rightarrow> nat" where
  "producer_work ProducerSetup = 2"
| "producer_work ProducerHead = 1"
| "producer_work Requesting = 0"
| "producer_work (Delivering es) = length es + 2"
| "producer_work ProducerExited = 0"

fun writer_work :: "writer_pc \<Rightarrow> nat" where
  "writer_work (Inserting e) = 4"
| "writer_work WriterConnecting = 3"
| "writer_work WriterHead = 2"
| "writer_work Popping = 1"
| "writer_work WriterExited = 0"

text \<open>
  An event in the queue costs four steps: it is popped, refused, the writer connects and tests
  \<open>running\<close>. An event that is not yet pushed costs one more.
\<close>

definition program_work :: "program \<Rightarrow> nat" where
  "program_work s = (if s_should_exit s then 0 else 1) + main_work (s_main s)
     + 5 * producer_work (s_ws s) + 5 * producer_work (s_http s)
     + 4 * length (queue_contents (s_queue s)) + writer_work (s_writer s)"

definition requests_out :: "program \<Rightarrow> nat" where
  "requests_out s = of_bool (s_ws s = Requesting) + of_bool (s_http s = Requesting)"

definition producers_stopped :: "program \<Rightarrow> bool" where
  "producers_stopped s = (\<not> s_ws_running s \<and> \<not> s_http_running s)"

text \<open>One step of a thread, after any changes of the outside.\<close>

definition program_round :: "program \<Rightarrow> program \<Rightarrow> bool" where
  "program_round s t = (\<exists>u. environment_step\<^sup>*\<^sup>* s u \<and> program_step u t)"

lemma producer_step_work:
  assumes "producer_step answers False q pc q' pc'" and "queue_inv q"
  shows "pc' \<noteq> Requesting
    \<and> (pc \<noteq> Requesting \<longrightarrow>
        5 * producer_work pc' + 4 * length (queue_contents q') < 5 * producer_work pc + 4 * length (queue_contents q))"
  using assms(1)
proof (cases rule: producer_step.cases)
  case (producer_push e rc es)
  from ring.push_result(1) [OF assms(2) producer_push(3)] producer_push show ?thesis
    by (auto simp del: ring.push_result)
qed simp_all

lemma writer_step_work:
  assumes "writer_step config db running q pc q' pc'" and "queue_inv q"
  shows "4 * length (queue_contents q') + writer_work pc' < 4 * length (queue_contents q) + writer_work pc"
  using assms(1)
proof (cases rule: writer_step.cases)
  case (writer_takes e)
  from ring.pop_cases [OF assms(2) writer_takes(3)] writer_takes show ?thesis by auto
next
  case (writer_ends rc r)
  then have "queue_contents q = []" using ring.pop_event [OF assms(2) _ writer_ends(3)] by blast
  with ring.pop_cases [OF assms(2) writer_ends(3)] have "queue_contents q' = []" by (auto split: option.splits)
  with writer_ends show ?thesis by simp
qed simp_all

lemma program_step_work:
  assumes "program_step s t" and "program_inv s" and "producers_stopped s"
  shows "producers_stopped t \<and> requests_out t \<le> requests_out s
    \<and> (requests_out t = requests_out s \<longrightarrow> program_work t < program_work s)"
proof -
  have q: "queue_inv (s_queue s)" using assms(2) by (simp add: program_inv_def)
  show ?thesis
    using assms(1,3) producer_step_work [OF _ q] writer_step_work [OF _ q]
    by (cases rule: program_step.cases)
       (auto simp: program_work_def requests_out_def producers_stopped_def ring.close_contents of_bool_def split: if_splits)
qed

lemma environment_step_work:
  "environment_step s u \<Longrightarrow> producers_stopped u = producers_stopped s \<and> requests_out u = requests_out s
    \<and> program_work u = program_work s"
  by (induction rule: environment_step.induct) (simp_all add: producers_stopped_def requests_out_def program_work_def)

lemma environment_keeps:
  "environment_step\<^sup>*\<^sup>* s u \<Longrightarrow> program_inv s \<Longrightarrow>
    program_inv u \<and> producers_stopped u = producers_stopped s \<and> requests_out u = requests_out s
    \<and> program_work u = program_work s"
  by (induction rule: rtranclp.induct) (use environment_step_work program_inv_environment in auto)

lemma round_work:
  assumes "program_round s t" and "program_inv s" and "producers_stopped s"
  shows "program_inv t \<and> producers_stopped t \<and> requests_out t \<le> requests_out s
    \<and> (requests_out t = requests_out s \<longrightarrow> program_work t < program_work s)"
proof -
  obtain u where u: "environment_step\<^sup>*\<^sup>* s u" "program_step u t" using assms(1) unfolding program_round_def by blast
  from environment_keeps [OF u(1) assms(2)] program_step_work [OF u(2)] program_inv_step [OF u(2)] assms(3)
  show ?thesis by simp
qed

lemma rounds_work:
  assumes "(program_round ^^ n) s t" and "program_inv s" and "producers_stopped s"
  shows "program_inv t \<and> producers_stopped t \<and> requests_out t \<le> requests_out s
    \<and> (requests_out t = requests_out s \<longrightarrow> program_work t + n \<le> program_work s)"
  using assms(1)
proof (induction n arbitrary: t)
  case 0
  with assms(2,3) show ?case by simp
next
  case (Suc n)
  then obtain u where u: "(program_round ^^ n) s u" "program_round u t" by auto
  from Suc.IH [OF u(1)] round_work [OF u(2)] show ?case by auto
qed

lemma round_reachable:
  assumes "program_round s t" and "program_reachable s0 s"
  shows "program_reachable s0 t"
proof -
  obtain u where u: "environment_step\<^sup>*\<^sup>* s u" "program_step u t" using assms(1) unfolding program_round_def by blast
  from u(1) assms(2) have "program_reachable s0 u"
    by (induction rule: rtranclp.induct) (auto intro: program_environment)
  then show ?thesis using u(2) by (rule program_next)
qed

lemma rounds_reachable: "(program_round ^^ n) s t \<Longrightarrow> program_reachable s0 s \<Longrightarrow> program_reachable s0 t"
  by (induction n arbitrary: t) (auto intro: round_reachable)

section \<open>Termination\<close>

lemma no_endless_run:
  assumes "program_inv s" and "producers_stopped s"
  shows "\<not> (\<exists>f. f 0 = s \<and> (\<forall>i. program_round (f i) (f (Suc i))))"
proof
  assume "\<exists>f. f 0 = s \<and> (\<forall>i. program_round (f i) (f (Suc i)))"
  then obtain f where f: "f 0 = s" "\<And>i. program_round (f i) (f (Suc i))" by blast
  have keep: "program_inv (f i) \<and> producers_stopped (f i)" for i
    by (induction i) (use assms f round_work in auto)
  let ?R = "inv_image (less_than <*lex*> less_than) (\<lambda>s. (requests_out s, program_work s))"
  have "(f (Suc i), f i) \<in> ?R" for i
    using round_work [OF f(2) [of i]] keep [of i] by auto
  moreover have "wf ?R" by (intro wf_inv_image wf_lex_prod wf_less_than)
  ultimately show False unfolding wf_iff_no_infinite_down_chain by blast
qed

text \<open>
  C3. The shutdown ends: once both network threads were told to stop, or were never started, no run
  of the program goes on for ever, under any schedule, with any number of refused statements
  and whatever the database and the node do meanwhile. If no request is out the number of
  steps of a run is bounded by the work that is left. A run that cannot go on while the
  database accepts and the node answers has ended with the return of \<open>main\<close>; where it cannot
  go on otherwise, says \<open>program_hangs_only_on_outside\<close>.
\<close>

theorem shutdown_terminates:
  assumes "program_reachable (program_init db answers sys) s" and "queue_inv (sys_queue sys)"
    and "\<not> q_closed (sys_queue sys)" and "w_running (sys_writer sys)"
    and "\<not> s_ws_running s" and "\<not> s_http_running s"
  shows "\<not> (\<exists>f. f 0 = s \<and> (\<forall>i. program_round (f i) (f (Suc i))))
    \<and> ((program_round ^^ n) s t \<and> s_ws s \<noteq> Requesting \<and> s_http s \<noteq> Requesting \<longrightarrow>
        n \<le> 8 + 5 * producer_work (s_ws s) + 5 * producer_work (s_http s) + 4 * length (queue_contents (s_queue s))
          + writer_work (s_writer s))
    \<and> ((program_round ^^ n) s t \<and> program_stuck t \<and> s_db t = DbAccepts \<and> s_node_answers t \<longrightarrow> s_main t = MainDone)"
proof (intro conjI impI)
  have inv: "program_inv s" by (rule program_inv_reachable [OF assms(1) program_init_inv [OF assms(2-4)]])
  have st: "producers_stopped s" using assms(5,6) by (simp add: producers_stopped_def)
  show "\<not> (\<exists>f. f 0 = s \<and> (\<forall>i. program_round (f i) (f (Suc i))))" by (rule no_endless_run [OF inv st])
  show "n \<le> 8 + 5 * producer_work (s_ws s) + 5 * producer_work (s_http s) + 4 * length (queue_contents (s_queue s))
      + writer_work (s_writer s)" if "(program_round ^^ n) s t \<and> s_ws s \<noteq> Requesting \<and> s_http s \<noteq> Requesting"
  proof -
    have "requests_out s = 0" using that by (simp add: requests_out_def)
    then have "program_work t + n \<le> program_work s" using rounds_work [OF _ inv st, of n t] that by simp
    moreover have "main_work (s_main s) \<le> 7" by (cases "s_main s") simp_all
    ultimately show ?thesis by (auto simp: program_work_def split: if_splits)
  qed
  show "s_main t = MainDone"
    if "(program_round ^^ n) s t \<and> program_stuck t \<and> s_db t = DbAccepts \<and> s_node_answers t"
    using stuck_reasons [OF rounds_reachable [OF _ assms(1)] assms(2-4), of n t] that
    by (auto simp: writer_awaits_db_def)
qed

text \<open>The sample system, told to stop with nothing in flight: it returns in 8 steps of at most 16.\<close>

theorem shutdown_terminates_witness:
  "\<exists>s t. program_reachable (program_init DbAccepts True sample_system) s \<and> (program_round ^^ 8) s t
    \<and> s_main t = MainDone \<and> \<not> (\<exists>f. f 0 = s \<and> (\<forall>i. program_round (f i) (f (Suc i))))
    \<and> 8 \<le> 8 + 5 * producer_work (s_ws s) + 5 * producer_work (s_http s) + 4 * length (queue_contents (s_queue s))
        + writer_work (s_writer s)"
proof -
  obtain s t where s: "program_run (program_init DbAccepts True sample_system) s" "\<not> s_ws_running s"
    "\<not> s_http_running s" "(program_step ^^ 8) s t" "s_main t = MainDone" "s_ws s = ProducerHead"
    "s_http s = ProducerExited" using sample_stop_run by blast
  have r: "program_reachable (program_init DbAccepts True sample_system) s"
    using program_run_reachable [OF s(1) program_start] .
  have "program_step \<le> program_round" by (auto simp: program_round_def)
  then have "(program_round ^^ 8) s t" using relpowp_mono [of program_step program_round 8 s t] s(4) by blast
  with shutdown_terminates [OF r sample_system_facts(1,2,4) s(2,3), of 8 t] r s(5-7) show ?thesis by auto
qed

end
