(* ===== verification/Pipeline.thy ===== *)
theory Pipeline
  imports Websocket_Client Db_Writer
begin

text \<open>
  The components together, in the default mode: from a frame that libwebsockets hands to
  \<open>ws_callback\<close> through the parser, the decoder and the ring buffer to the row that the
  database thread leaves in the table.
\<close>

section \<open>The log of a transaction\<close>

text \<open>A line of the log: any text without the marker, or a payload as \<open>sol_log_data\<close> prints it.\<close>

datatype log_item = OtherLine string | DataLine "u8 list"

fun log_line :: "log_item \<Rightarrow> string" where
  "log_line (OtherLine text) = text"
| "log_line (DataLine bytes) = data_marker @ '' '' @ base64_encode (map unat bytes)"

fun log_item_ok :: "log_item \<Rightarrow> bool" where
  "log_item_ok (OtherLine text) = (strstr text data_marker = None)"
| "log_item_ok (DataLine bytes) =
     (bytes \<noteq> [] \<and> length bytes + 2 * length bytes mod 3 \<le> YUREI_EVENT_PAYLOAD_MAX)"

fun payloads :: "log_item list \<Rightarrow> u8 list list" where
  "payloads [] = []"
| "payloads (OtherLine text # items) = payloads items"
| "payloads (DataLine bytes # items) = bytes # payloads items"

text \<open>The bytes as the decoder returns them, with the zero bytes that the padding becomes.\<close>

definition padded :: "u8 list \<Rightarrow> u8 list" where
  "padded bytes = bytes @ replicate (2 * length bytes mod 3) 0"

section \<open>The events of a notification\<close>

lemma data_line_actions:
  assumes "log_item_ok (DataLine bytes)"
  shows "line_actions config prog sig slot (log_line (DataLine bytes))
    = [Deliver (line_event config prog sig slot (padded bytes))]"
proof -
  have "encodes (base64_encode (map unat bytes)) bytes (2 * length bytes mod 3)" by (simp add: encodes_def)
  from encoded_line_actions [OF this, of config prog sig slot] assms show ?thesis
    unfolding padded_def log_line.simps by simp
qed

lemma log_items_actions:
  "list_all log_item_ok items \<Longrightarrow>
   concat (map (line_actions config prog sig slot) (map log_line items))
     = map (\<lambda>b. Deliver (line_event config prog sig slot (padded b))) (payloads items)"
proof (induction items rule: payloads.induct)
  case (2 t items)
  then show ?case by (simp add: line_actions_def line_payload_def)
next
  case (3 bytes items)
  then show ?case using data_line_actions [of bytes config prog sig slot] by simp
qed simp

section \<open>The rows they become\<close>

lemma pumpfun_event:
  assumes "pumpfun_program config \<noteq> []" and "length sig < 128"
  shows "ev_kind (line_event config None (Some sig) slot bytes) = YUREI_EVENT_KIND_PUMPFUN"
    and "ev_signature (line_event config None (Some sig) slot bytes) = sig"
    and "event_bytes (line_event config None (Some sig) slot bytes) = bytes"
    and "ev_slot (line_event config None (Some sig) slot bytes) = slot"
  using assms by (simp_all add: line_event_def program_to_kind_def event_bytes_def)

lemma pumpfun_row:
  assumes "pumpfun_program config \<noteq> []" and "pumpfun_table config \<noteq> []" and "length sig < 128" and "slot < 2 ^ 64"
  shows "stored_under config relation (relation (pumpfun_table config)) sig (line_event config None (Some sig) (of_nat slot) bytes)"
    and "event_row (line_event config None (Some sig) (of_nat slot) bytes) = (show_nat slot, bytes)"
proof -
  have "unat (of_nat slot :: u64) = slot" using assms(4) by (simp add: unsigned_of_nat take_bit_nat_eq_self)
  then show "stored_under config relation (relation (pumpfun_table config)) sig (line_event config None (Some sig) (of_nat slot) bytes)"
    and "event_row (line_event config None (Some sig) (of_nat slot) bytes) = (show_nat slot, bytes)"
    using assms(2) pumpfun_event [OF assms(1,3)] by (simp_all add: stored_under_def event_row_def table_for_event_def)
qed

lemma notification_rows:
  assumes "pumpfun_program config \<noteq> []" and "pumpfun_table config \<noteq> []" and "length sig < 128" and "slot < 2 ^ 64"
    and "map fst sent = map (\<lambda>b. line_event config None (Some sig) (of_nat slot) (padded b)) bs"
  shows "sent_rows config relation (relation (pumpfun_table config)) sig sent
    = zip (map (\<lambda>b. (show_nat slot, padded b)) bs) (map snd sent)"
  using assms(5)
proof (induction sent arbitrary: bs)
  case (Cons x sent)
  then obtain b bs' where "bs = b # bs'" by (cases bs) auto
  with Cons pumpfun_row [OF assms(1-4)] show ?case by (cases x) (simp add: sent_rows_Cons)
qed (simp add: sent_rows_def)

lemma receive_delivers:
  assumes "ws_client st = Some c" and "json_parse cj (cstr frame) = Some doc" and "queue_inv (wc_queue c)"
    and "\<not> q_closed (wc_queue c)" and "events = delivered (message_actions cj oob (wc_config c) (cstr frame))"
    and "length (queue_contents (wc_queue c)) + length events \<le> q_capacity (wc_queue c)"
  shows "\<exists>st' c'. ws_callback cj oob queue_push (True, LWS_CLIENT_RECEIVE frame) st = Some st' \<and> ws_client st' = Some c'
    \<and> queue_contents (wc_queue c') = queue_contents (wc_queue c) @ events \<and> queue_inv (wc_queue c')
    \<and> wc_config c' = wc_config c"
  using parser_ring.handle_message_open [OF assms(3,4,2) assms(6) [unfolded assms(5)], of None] assms(1,5)
  by (auto simp: ws_callback_def)

text \<open>
  C2. From the node to the table, in the default mode: a frame that holds a whole notification,
  each of whose payloads fits an event, is received by a client with an open, empty queue
  that has room for its payloads; the queue is then closed and drained into a server that
  may refuse any statement but can be reached again. Each payload is sent once, in order. A
  row that the pump.fun table has under the signature stays; otherwise the table has there
  the row of the first payload whose statement was reported as done, or of an earlier one
  whose failure was only apparent, or perhaps none if all were refused; so it is the first
  payload if its statement is done. A row is the slot and the bytes that were logged,
  followed by the zero bytes that their base64 padding becomes. The other payloads of the
  transaction are lost, and so is which program logged them.
\<close>

theorem notification_to_table:
  assumes "ws_client st = Some c" and "config_wf (wc_config c)" and "queue_inv (wc_queue c)"
    and "\<not> q_closed (wc_queue c)" and "queue_contents (wc_queue c) = []"
    and "plain_tables (wc_config c)" and "pumpfun_program (wc_config c) \<noteq> []" and "pumpfun_table (wc_config c) \<noteq> []"
    and "json_parse cj (cstr frame) = Some doc" and "logs_notification cj doc sig (of_nat slot) (map log_line items)"
    and "slot < 2 ^ 64" and "length sig < 128" and "list_all log_item_ok items"
    and "length (payloads items) \<le> q_capacity (wc_queue c)" and "length (payloads items) < n"
    and "inserts_by_key pg relation rows"
    and "\<forall>db. wait_for_connection pg fuel (pg_conninfo (wc_config c)) db \<noteq> None"
  shows "\<exists>st' c' s'. ws_callback cj oob queue_push (True, LWS_CLIENT_RECEIVE frame) st = Some st'
    \<and> ws_client st' = Some c'
    \<and> writer_thread pg fuel (wc_config c) (replicate n True) (queue_close (wc_queue c')) db = (Finished, s')
    \<and> map (\<lambda>(e, ok). (ev_signature e, unat (ev_slot e), ev_data e)) (w_sent s')
        = map (\<lambda>bytes. (sig, slot, bytes @ replicate (2 * length bytes mod 3) 0)) (payloads items)
    \<and> (\<forall>row. rows db (relation (pumpfun_table (wc_config c))) sig = Some row
         \<longrightarrow> rows (w_db s') (relation (pumpfun_table (wc_config c))) sig = Some row)
    \<and> (rows db (relation (pumpfun_table (wc_config c))) sig = None
         \<longrightarrow> rows (w_db s') (relation (pumpfun_table (wc_config c))) sig \<in> possible_rows
               (zip (map (\<lambda>bytes. (show_nat slot, bytes @ replicate (2 * length bytes mod 3) 0)) (payloads items))
                  (map snd (w_sent s'))))
    \<and> (rows db (relation (pumpfun_table (wc_config c))) sig = None \<and> payloads items \<noteq> [] \<and> snd (hd (w_sent s'))
         \<longrightarrow> rows (w_db s') (relation (pumpfun_table (wc_config c))) sig
               = Some (show_nat slot, hd (payloads items) @ replicate (2 * length (hd (payloads items)) mod 3) 0))"
proof -
  let ?ev = "\<lambda>b. line_event (wc_config c) None (Some sig) (of_nat slot) (padded b)"
  let ?t = "relation (pumpfun_table (wc_config c))"
  let ?rs = "\<lambda>s'. zip (map (\<lambda>b. (show_nat slot, padded b)) (payloads items)) (map snd (w_sent s'))"
  have "message_actions cj oob (wc_config c) (cstr frame) = map (\<lambda>b. Deliver (?ev b)) (payloads items)"
    using assms(9) notification_actions [OF assms(10)] double_of_nat [OF assms(11)] log_items_actions [OF assms(13)]
    by (simp only: message_actions_def option.case)
  also have "\<dots> = map Deliver (map ?ev (payloads items))" by simp
  finally have ev: "delivered (message_actions cj oob (wc_config c) (cstr frame)) = map ?ev (payloads items)"
    by (simp only: delivered_map)
  obtain st' c' where r: "ws_callback cj oob queue_push (True, LWS_CLIENT_RECEIVE frame) st = Some st'"
    "ws_client st' = Some c'" "queue_contents (wc_queue c') = map ?ev (payloads items)" "queue_inv (wc_queue c')"
    using receive_delivers [OF assms(1,9,3,4) refl, of oob] ev assms(5,14) by auto
  let ?q = "queue_close (wc_queue c')"
  have q: "queue_inv ?q" "q_closed ?q" "queue_contents ?q = map ?ev (payloads items)"
    using r(3,4) by (simp_all add: ring.close_inv ring.close_closed ring.close_contents)
  then have "length (queue_contents ?q) < n" using assms(15) by (simp only: length_map)
  from writer_thread_rows [OF assms(16,2,6) q(1,2) this assms(17), of db ?t sig]
  obtain s' where s': "writer_thread pg fuel (wc_config c) (replicate n True) ?q db = (Finished, s')"
    "map fst (w_sent s') = map ?ev (payloads items)"
    "rows (w_db s') ?t sig \<in> row_outcomes (rows db ?t sig) (sent_rows (wc_config c) relation ?t sig (w_sent s'))"
    unfolding q(3) by blast
  note o = s'(3) [unfolded notification_rows [OF assms(7,8,12,11) s'(2)]]
  have len: "length (w_sent s') = length (payloads items)" using arg_cong [OF s'(2), of length] by simp
  have row: "rows (w_db s') ?t sig = Some row" if "rows db ?t sig = Some row" for row
    using o that by (simp add: row_outcomes_def)
  have pos: "rows (w_db s') ?t sig \<in> possible_rows (?rs s')" if "rows db ?t sig = None"
    using o that by (simp add: row_outcomes_def)
  have first: "rows (w_db s') ?t sig = Some (show_nat slot, padded (hd (payloads items)))"
    if "rows db ?t sig = None" "payloads items \<noteq> []" "snd (hd (w_sent s'))"
  proof -
    obtain b bs x xs where "payloads items = b # bs" "w_sent s' = x # xs"
      using \<open>payloads items \<noteq> []\<close> len by (cases "payloads items"; cases "w_sent s'") auto
    with pos [OF \<open>rows db ?t sig = None\<close>] \<open>snd (hd (w_sent s'))\<close> show ?thesis by simp
  qed
  have "map (\<lambda>(e, ok). (ev_signature e, unat (ev_slot e), ev_data e)) (w_sent s')
      = map (\<lambda>e. (ev_signature e, unat (ev_slot e), ev_data e)) (map fst (w_sent s'))"
    by (simp add: case_prod_unfold o_def)
  also have "\<dots> = map (\<lambda>b. (sig, slot, padded b)) (payloads items)"
    using assms(11) pumpfun_event(2) [OF assms(7,12)]
    unfolding s'(2) by (simp add: line_event_def unsigned_of_nat take_bit_nat_eq_self snprintf_str_def)
  finally have sent: "map (\<lambda>(e, ok). (ev_signature e, unat (ev_slot e), ev_data e)) (w_sent s')
      = map (\<lambda>b. (sig, slot, padded b)) (payloads items)" .
  show ?thesis unfolding padded_def [symmetric]
    using row pos first
    by (intro exI [of _ st'] exI [of _ c'] exI [of _ s'] conjI r(1,2) s'(1) sent) simp_all
qed

text \<open>A transaction that logged two payloads: the row has the first one and a spurious zero byte.\<close>

definition sample_items :: "log_item list" where
  "sample_items = [OtherLine ''Program log: hi'', DataLine [1, 2], DataLine [3]]"

definition logged_notification :: json where
  "logged_notification =
     JObject [(''params'', JObject [(''result'', JObject
       [(''context'', JObject [(''slot'', JNumber (of_nat 77))]),
        (''value'', JObject [(''signature'', JString ''5sig''),
           (''logs'', JArray (map (JString \<circ> log_line) sample_items))])])])]"

definition logged_cj :: "json cjson" where
  "logged_cj = json_tree (\<lambda>t. if t = ''frame'' then Some logged_notification else None)"

lemma logged_is_notification:
  "json_parse logged_cj (cstr ''frame'') = Some logged_notification"
  "logs_notification logged_cj logged_notification ''5sig'' (of_nat 77) (map log_line sample_items)"
  by (simp_all add: logged_cj_def json_tree_def)
     (simp add: logs_notification_def logged_notification_def string_of_def o_def)

lemma sample_items_ok: "list_all log_item_ok sample_items" "payloads sample_items = [[1, 2], [3]]"
  by (simp_all add: sample_items_def data_marker_def YUREI_EVENT_PAYLOAD_MAX_def)

lemma sample_tables: "pumpfun_program sample_config \<noteq> []" "pumpfun_table sample_config = ''pumpfun_trades''"
  by (simp_all add: sample_config_def apply_defaults_def copy_string_def snprintf_str_def)

lemma sample_plain: "plain_tables sample_config"
  by (simp add: plain_tables_def sample_config_def apply_defaults_def copy_string_def snprintf_str_def plain_names)

lemma sample_ws_facts:
  "ws_client sample_ws_state = Some sample_ws_client" "wc_queue sample_ws_client = empty_queue"
  "wc_config sample_ws_client = sample_config"
  by (simp_all add: sample_ws_state_def sample_ws_client_def)

theorem notification_to_table_witness:
  "\<exists>st' c' s'. ws_callback logged_cj (\<lambda>x. 0) queue_push (True, LWS_CLIENT_RECEIVE ''frame'') sample_ws_state = Some st'
    \<and> ws_client st' = Some c'
    \<and> writer_thread map_pg 1 sample_config (replicate 3 True) (queue_close (wc_queue c')) [] = (Finished, s')
    \<and> map (\<lambda>(e, ok). (ev_signature e, unat (ev_slot e), ev_data e)) (w_sent s')
        = [(''5sig'', 77, [1, 2, 0]), (''5sig'', 77, [3, 0, 0])]
    \<and> map_rows (w_db s') ''pumpfun_trades'' ''5sig'' \<in> {None, Some (''77'', [1, 2, 0]), Some (''77'', [3, 0, 0])}"
proof -
  have c: "\<forall>db. wait_for_connection map_pg 1 (pg_conninfo (wc_config sample_ws_client)) db \<noteq> None"
    using map_pg_reached [of 0] by simp
  have r: "map_rows [] ''pumpfun_trades'' ''5sig'' = None" "show_nat 77 = ''77''"
    by (simp add: map_rows_def) code_simp
  have z: "replicate 2 0 = [0, 0 :: u8]" by (simp add: numeral_2_eq_2)
  have sub: "possible_rows (zip [a, b] oks) \<subseteq> {None, Some a, Some b}" for a b :: "string \<times> u8 list" and oks
    by (cases oks; cases "tl oks") auto
  obtain st' c' s' where o: "ws_callback logged_cj (\<lambda>x. 0) queue_push (True, LWS_CLIENT_RECEIVE ''frame'') sample_ws_state = Some st'"
    "ws_client st' = Some c'"
    "writer_thread map_pg 1 sample_config (replicate 3 True) (queue_close (wc_queue c')) [] = (Finished, s')"
    "map (\<lambda>(e, ok). (ev_signature e, unat (ev_slot e), ev_data e)) (w_sent s')
        = [(''5sig'', 77, [1, 2, 0]), (''5sig'', 77, [3, 0, 0])]"
    "map_rows (w_db s') ''pumpfun_trades'' ''5sig'' \<in> possible_rows
       (zip [(''77'', [1, 2, 0]), (''77'', [3, 0, 0])] (map snd (w_sent s')))"
    using notification_to_table [where n = 3 and oob = "\<lambda>x. 0" and db = "[]", OF sample_ws_facts(1) _ _ _ _ _ _ _ logged_is_notification
        _ _ sample_items_ok(1) _ _ map_pg_inserts c, unfolded sample_ws_facts sample_items_ok(2) sample_tables(2)]
    by (simp add: sample_config_wf sample_plain empty_queue_facts sample_tables r z) (elim exE conjE, rule that; simp)
  show ?thesis
    by (intro exI [of _ st'] exI [of _ c'] exI [of _ s'] conjI o(1-4) subsetD [OF sub o(5)])
qed

end
