(* ===== verification/Spec2Isabelle.thy ===== *)
theory Spec2Isabelle
  imports Env_File Queue_Monitor Shutdown_Progress Pipeline
begin

text \<open>
  A verification library for yurei-jsonrpc-client, a program in C that takes the logs of
  two Solana programs from a JSON-RPC node and stores the payloads they contain in PostgreSQL.

  The program. \<open>src/main.c\<close> reads the configuration (\<open>src/config.c\<close>), sets up the metrics
  (\<open>src/metrics.c\<close>), the rate limiter (\<open>src/rate_limiter.c\<close>) and a bounded queue of events
  (\<open>src/event_queue.c\<close>), and starts up to three threads. The WebSocket client
  (\<open>src/websocket_client.c\<close>) subscribes to the logs and reconnects with a back-off; the HTTP
  poller (\<open>src/http_poller.c\<close>) asks for them at an interval, under the rate limiter, and keeps
  the metrics. Both hand the JSON texts they get to the parser (\<open>src/parser.c\<close>), which decodes
  the base64 payloads of the log lines and pushes one event for each into the queue; a push
  waits while the queue is full. The database writer (\<open>src/db_writer.c\<close>) pops the events and
  inserts them. All of them log (\<open>src/logging.c\<close>). On a signal \<open>main\<close> stops the network
  threads, closes the queue and stops the writer.

  The theories.

  \<^item> \<open>Yurei_Prelude\<close>, \<open>C_Strings\<close>, \<open>IEEE_Double\<close>: shared lemmas; the functions of the C library
    on strings that the code calls (\<open>snprintf\<close>, \<open>strchr\<close>, \<open>strstr\<close>, \<open>strcasecmp\<close>, \<open>strtoul\<close>,
    \<open>atoi\<close>, \<open>isspace\<close>); the rounding of binary64 on rationals, \<open>dround\<close>. A C string is a
    character list without NUL, a buffer its length; \<open>snprintf_at\<close> is \<open>None\<close> where the code
    would write outside its buffer.

  \<^item> \<open>Logging\<close>: levels, module state, the text of a line and a reader that takes such a line
    apart. Elsewhere a call of \<open>YUREI_LOG_...\<close> is
    a pair of level and text, appended to the log that the operation returns.

  \<^item> \<open>Config\<close>, \<open>Env_File\<close>: the record \<open>YureiConfig\<close>, the defaults, \<open>load_env_file\<close> over the
    characters of the file, the environment; what one line of the file does and the file as
    the sequence of its lines.

  \<^item> \<open>Queue_Interface\<close>, \<open>Event_Queue\<close>, \<open>Queue_Monitor\<close>: the contract of a closable bounded
    queue as the locales \<open>event_sink\<close> and \<open>event_source\<close> and what follows from it; the ring
    buffer as their interpretation \<open>ring\<close>; the monitor with its two condition variables as a
    step relation over any number of threads. A call that waits is \<open>None\<close> in \<open>Event_Queue\<close>
    and a sleeping thread in \<open>Queue_Monitor\<close>, where a wake-up may also be spurious.

  \<^item> \<open>Rate_Limiter\<close>: the token bucket, over an arbitrary monotone rounding of the double
    operations (a locale), interpreted at binary64 and at exact arithmetic. The clock readings
    are arguments; a wait consumes a list of them and is \<open>None\<close> when it runs out; 1025
    readings at least a millisecond apart are shown to be enough.

  \<^item> \<open>Metrics\<close>: the counters as 64-bit words, every call and the summary; the loops of
    \<open>atomic_compare_exchange_weak\<close> under any interleaving and spurious failures, which
    justify that the calls set the extremes in one step.

  \<^item> \<open>Base64\<close>, \<open>Parser\<close>: the decoder with its accumulator as a 32-bit word, against a decoder
    by groups and an encoder; the handlers of \<open>src/parser.c\<close> over a record of the cJSON
    functions they call, against \<open>message_actions\<close>, the list of events and warnings that a
    message asks for. The locale \<open>parser_queue\<close> proves their effect for any queue with the
    contract; \<open>parser_ring\<close> is the interpretation on the ring buffer. \<open>logs_notification\<close> says
    what a node sends, in terms of the accessors.

  \<^item> \<open>Backoff\<close>, \<open>Rpc_Request\<close>: the doubling of the delays in 32 bits, with the limits that make
    it safe as a locale; the text of the list of programs that both network components send.

  \<^item> \<open>Db_Writer\<close>: statement, insertion, reconnection and thread over a record of the libpq
    calls on an abstract state of the server. The loop of the thread runs along the list of
    values its reads of \<open>running\<close> return; \<open>wait_for_connection\<close> has fuel, and any fuel above the
    number of failures is shown to be enough. \<open>inserts_by_key\<close> is what the last section
    assumes of the server, which may refuse any statement; \<open>possible_rows\<close> is what refused and
    executed statements for one key can leave.

  \<^item> \<open>Http_Poller\<close>: request, response, metrics and thread; a round gets its clock readings, the
    chunks of the body and the result of the transfer as arguments.

  \<^item> \<open>Websocket_Client\<close>: \<open>parse_endpoint\<close>, the subscription, \<open>ws_callback\<close> and the service
    loop over the callbacks that libwebsockets makes in each round; the calls of
    \<open>lws_callback_on_writable\<close> are counted.

  \<^item> \<open>Client_Main\<close>, \<open>Shutdown\<close>: command line, start-up with the exit of each failure, the loop
    that logs the metrics; then the life of the whole program as a step relation of the main
    thread, the network threads and the writer on the shared queue. The outside has steps of its
    own: the database accepts, refuses or is silent, the node answers or does not, and both
    change at any time. An HTTP request waits while the node does not answer, since the code
    limits only the time to connect. \<open>Shutdown_Progress\<close> shows that no run is endless after the
    network threads were told to stop, and bounds its steps when no request is out, by a
    measure that every step of a thread lowers.

  \<^item> \<open>Pipeline\<close>: the components composed in the default mode, from a frame with a notification
    to the row in the table.

  What the lemmas show. The queue: every interleaving delivers the accepted events in order,
  no wake-up is lost, nobody waits in a closed queue. The parser: a message appends exactly
  its events, which fit their arrays; the decoder agrees with RFC 4648 except for padding. The
  rate limiter: the rate, its bounds, and that a wait returns. The network components: the
  requests are complete and fit their buffers, the subscription is sent once per connection,
  the delays follow the schedule, the metrics count each round once. The writer: a closed queue
  is drained, each event sent once, and what is then in the tables. The program: it can hang
  only on a node that does not answer a request or on a database that is not available, it
  does hang on either, no shutdown goes on for ever, and nothing is used after it was
  destroyed. The composition: what a transaction logged is sent to the table, which keeps the
  first payload the server takes. Some of the theorems state faults of the code: the padding
  of base64, the events dropped at shutdown or with a repeated signature, the hangs of the
  shutdown, the back-off that connection errors skip, the long comment lines, and others that
  the texts at the theorems name.

  Assumed of code that is not in the repository. Of cJSON nothing (the accessors are any
  functions), except in \<open>slot_conversion_exact\<close> that a number is rounded to the nearest double.
  Of libcurl and libwebsockets nothing (results and callbacks are any sequence), except in
  \<open>Shutdown\<close> that \<open>lws_service\<close> returns, on an event, on its timeout or when it is cancelled. Of
  the server, in \<open>first_event_of_signature_stored\<close> and \<open>notification_to_table\<close>, that it can be
  reached again after a failure and \<open>inserts_by_key\<close>: a statement reported as done has
  inserted its row unless the key exists, any other statement may be refused. An example
  server that keeps this law and refuses slots beyond \<open>BIGINT\<close> is \<open>map_pg\<close>.

  Not modelled. The arguments that are \<open>NULL\<close> in none of the calls are left out, except in
  \<open>Event_Queue\<close> and \<open>Metrics\<close>. Undefined behaviour is not a value: the shift of a
  negative or overflowing \<open>int\<close> in the decoder is taken to wrap, an out-of-range conversion to
  \<open>uint64_t\<close> is an arbitrary function, and the unsynchronised reads of \<open>running\<close> return an
  arbitrary sequence of values. The initialisation of the base64 table is one step, although
  two threads can run it. The options given to libcurl and libwebsockets, the allocation and
  release of memory outside \<open>write_callback\<close>, \<open>yurei_queue_init\<close> and the frame buffer, the
  installation of the signal handlers (a signal may come at any time) and the printing itself
  are left out, and so are the SQL schema, the shell scripts and the build files.
\<close>

end
